theory Spec2Isabelle
  imports Main
begin

section \<open>The Bigtable node store: data model\<close>

text \<open>
  A shallow embedding of \<^verbatim>\<open>sentry/nodestore/bigtable/backend.py\<close>
  (class \<^verbatim>\<open>BigtableNodeStorage\<close>).

  Python 2 byte strings (\<^verbatim>\<open>str\<close>) are modelled as \<open>string\<close>: a list of
  8-bit characters. A \<^verbatim>\<open>datetime\<close> is the number of microseconds since
  \<^verbatim>\<open>datetime.min\<close> (0001-01-01 00:00:00), a \<^verbatim>\<open>timedelta\<close> a number of
  microseconds; both are integers, as the resolution of the Python types is one microsecond.
\<close>

type_synonym bytes = string
type_synonym datetime = int
type_synonym timedelta = int

text \<open>The exceptions that the code of \<^verbatim>\<open>get\<close> and \<^verbatim>\<open>set\<close> can raise by itself.\<close>

datatype error =
    OverflowError   \<comment> \<open>\<^verbatim>\<open>timezone.now() + ttl\<close> leaves the range of \<^verbatim>\<open>datetime\<close>\<close>
  | StructError     \<comment> \<open>\<^verbatim>\<open>struct.pack('<I', n)\<close> with \<open>n\<close> outside \<open>0 .. 2^32 - 1\<close>\<close>
  | KeyError        \<comment> \<open>a dictionary lookup that is not caught\<close>
  | IndexError      \<comment> \<open>\<^verbatim>\<open>xs[0]\<close> on an empty list\<close>
  | DecodeError     \<comment> \<open>raised by the JSON decoder, an external collaborator\<close>

text \<open>
  The attributes of the storage object that \<^verbatim>\<open>get\<close> and \<^verbatim>\<open>set\<close> read:
  the class attributes \<^verbatim>\<open>bytes_per_column\<close> and \<^verbatim>\<open>max_size\<close> and the instance
  attribute \<^verbatim>\<open>default_ttl\<close> (\<open>None\<close> when it is not configured).
\<close>

record node_storage =
  bytes_per_column :: nat
  max_size :: nat
  default_ttl :: "timedelta option"

text \<open>The values of the class attributes in the source; no default TTL.\<close>

definition BigtableNodeStorage :: node_storage where
  "BigtableNodeStorage =
     \<lparr>bytes_per_column = 1024 * 1024 * 10, max_size = 1024 * 1024 * 100, default_ttl = None\<rparr>"

text \<open>
  The configuration of the example in the specification: chunks of 10 bytes and 3 chunk
  columns, so that every case can be evaluated on short strings.
\<close>

definition example_storage :: node_storage where
  "example_storage = \<lparr>bytes_per_column = 10, max_size = 30, default_ttl = None\<rparr>"

text \<open>\<^verbatim>\<open>text_type(i).encode()\<close>: the decimal digits of a natural number.\<close>

fun text_type :: "nat \<Rightarrow> bytes" where
  "text_type n =
     (if n < 10 then [char_of (48 + n)]
      else text_type (n div 10) @ [char_of (48 + n mod 10)])"

declare text_type.simps [simp del]

text \<open>
  \<^verbatim>\<open>columns = [text_type(i).encode() for i in range(max_size / bytes_per_column)]\<close>;
  the division is the integer division of Python 2.
\<close>

definition columns :: "node_storage \<Rightarrow> bytes list" where
  "columns self = map text_type [0 ..< max_size self div bytes_per_column self]"

definition column_family :: bytes where
  "column_family = ''x''"

definition ttl_column :: bytes where
  "ttl_column = ''t''"

text \<open>
  A cell as the client returns it: a value and a timestamp. \<^verbatim>\<open>row.cells\<close> maps a column
  family to a dictionary from columns to the list of the cells of that column, newest first.
\<close>

record cell =
  cell_value :: bytes
  cell_timestamp :: datetime

type_synonym family_cells = "bytes \<rightharpoonup> cell list"
type_synonym row_cells = "bytes \<rightharpoonup> family_cells"

text \<open>
  The mutations that \<^verbatim>\<open>row.delete()\<close> and \<^verbatim>\<open>row.set_cell(family, column, value,
  timestamp)\<close> append to a row object; \<^verbatim>\<open>timestamp=None\<close> leaves the time to the store.
\<close>

datatype mutation =
    DeleteFromRow
  | SetCell bytes bytes bytes "datetime option"

section \<open>Python primitives used by the code\<close>

text \<open>
  \<^verbatim>\<open>a or b\<close> on optional durations: \<open>None\<close> and \<^verbatim>\<open>timedelta(0)\<close> are false.
\<close>

definition py_or :: "timedelta option \<Rightarrow> timedelta option \<Rightarrow> timedelta option" where
  "py_or a b = (case a of None \<Rightarrow> b | Some d \<Rightarrow> if d = 0 then b else Some d)"

text \<open>
  \<^verbatim>\<open>datetime.max\<close> is 9999-12-31 23:59:59.999999, and 9999-12-31 is day 3652059 counted
  from 0001-01-01 as day 1. An addition that leaves the range raises \<^verbatim>\<open>OverflowError\<close>.
\<close>

definition datetime_end :: int where
  "datetime_end = 3652059 * 86400 * 1000000"

definition datetime_add :: "datetime \<Rightarrow> timedelta \<Rightarrow> error + datetime" where
  "datetime_add t d =
     (if 0 \<le> t + d \<and> t + d < datetime_end then Inr (t + d) else Inl OverflowError)"

text \<open>
  \<^verbatim>\<open>int(ttl.total_seconds())\<close>: the duration in seconds, truncated towards zero.
  \<^verbatim>\<open>total_seconds\<close> returns a float, the correctly rounded quotient of the microseconds
  by \<open>10^6\<close>. Below \<open>2^53\<close> microseconds the rounding never reaches the next whole second
  (a quotient that is not whole is at least \<open>10^-6\<close> away from one, more than half the
  spacing of the floats below \<open>2^34\<close>), and from \<open>2^53\<close> microseconds on the seconds exceed
  \<open>2^32\<close> either way, so the integer model agrees with the code on what is packed and on
  whether packing fails.
\<close>

definition int_total_seconds :: "timedelta \<Rightarrow> int" where
  "int_total_seconds d = (if 0 \<le> d then d div 1000000 else - ((- d) div 1000000))"

text \<open>\<^verbatim>\<open>struct.pack('<I', n)\<close>: four bytes, least significant first.\<close>

definition pack_I :: "int \<Rightarrow> error + bytes" where
  "pack_I n =
     (if 0 \<le> n \<and> n < 2 ^ 32
      then Inr [char_of n, char_of (n div 2 ^ 8), char_of (n div 2 ^ 16), char_of (n div 2 ^ 24)]
      else Inl StructError)"

text \<open>
  \<^verbatim>\<open>struct.unpack('<I', v)[0]\<close>, which the source names in a comment of \<^verbatim>\<open>get\<close>.
\<close>

fun unpack_I :: "bytes \<Rightarrow> int" where
  "unpack_I [] = 0"
| "unpack_I (c # cs) = of_char c + 256 * unpack_I cs"

text \<open>\<^verbatim>\<open>b''.join(data)\<close>\<close>

definition join :: "bytes list \<Rightarrow> bytes" where
  "join data = concat data"

section \<open>\<^verbatim>\<open>set\<close>\<close>

text \<open>
  The loop of \<^verbatim>\<open>set\<close> over \<^verbatim>\<open>enumerate(self.columns)\<close>: the slice
  \<^verbatim>\<open>data[offset:offset + bytes_per_column]\<close> is \<open>take\<close> after \<open>drop\<close>, an empty chunk
  breaks the loop, and the loop ends with the last column. The result is the list of the
  \<^verbatim>\<open>set_cell\<close> calls, in order.
\<close>

fun set_loop :: "nat \<Rightarrow> bytes \<Rightarrow> datetime option \<Rightarrow> nat \<Rightarrow> bytes list \<Rightarrow> mutation list" where
  "set_loop bpc data ts idx [] = []"
| "set_loop bpc data ts idx (column # rest) =
     (let offset = idx * bpc;
          chunk = take bpc (drop offset data)
      in if length chunk = 0 then []
         else SetCell column_family column chunk ts # set_loop bpc data ts (idx + 1) rest)"

text \<open>
  Everything \<^verbatim>\<open>set\<close> does before \<^verbatim>\<open>self.connection.mutate_rows([row])\<close>: the
  mutations collected on the row object, or the exception raised on the way. \<open>now\<close> is the
  value of \<^verbatim>\<open>timezone.now()\<close> and \<open>data\<close> the byte string \<^verbatim>\<open>json_dumps(data)\<close>
  (the encoder is an external collaborator).
\<close>

definition set_row ::
  "node_storage \<Rightarrow> datetime \<Rightarrow> bytes \<Rightarrow> timedelta option \<Rightarrow> error + mutation list" where
  "set_row self now data ttl =
     (case py_or ttl (default_ttl self) of
        None \<Rightarrow>
          Inr (DeleteFromRow # set_loop (bytes_per_column self) data None 0 (columns self))
      | Some d \<Rightarrow>
          (case datetime_add now d of
             Inl e \<Rightarrow> Inl e
           | Inr ts \<Rightarrow>
               (case pack_I (int_total_seconds d) of
                  Inl e \<Rightarrow> Inl e
                | Inr v \<Rightarrow>
                    Inr (DeleteFromRow # SetCell column_family ttl_column v (Some ts) #
                         set_loop (bytes_per_column self) data (Some ts) 0 (columns self)))))"

text \<open>
  The chunks that the loop of \<^verbatim>\<open>set\<close> writes, in column order: the values of its
  \<^verbatim>\<open>set_cell\<close> calls.
\<close>

fun mutation_value :: "mutation \<Rightarrow> bytes" where
  "mutation_value DeleteFromRow = []"
| "mutation_value (SetCell f c v ts) = v"

definition split :: "node_storage \<Rightarrow> bytes \<Rightarrow> bytes list" where
  "split self data =
     map mutation_value (set_loop (bytes_per_column self) data None 0 (columns self))"

text \<open>What a mutation writes: the column of a \<^verbatim>\<open>set_cell\<close> and its timestamp.\<close>

fun writes_column :: "bytes \<Rightarrow> mutation \<Rightarrow> bool" where
  "writes_column c DeleteFromRow = False"
| "writes_column c (SetCell f c' v ts) = (c' = c)"

fun mutation_timestamp :: "mutation \<Rightarrow> datetime option" where
  "mutation_timestamp DeleteFromRow = None"
| "mutation_timestamp (SetCell f c v ts) = ts"

section \<open>\<^verbatim>\<open>get\<close>\<close>

text \<open>
  The loop of \<^verbatim>\<open>get\<close> over \<^verbatim>\<open>self.columns\<close>. \<open>cols\<close> is the dictionary
  \<^verbatim>\<open>row.cells[self.column_family]\<close>. A missing column is the caught \<^verbatim>\<open>KeyError\<close>
  that breaks the loop, a column with an empty cell list the \<^verbatim>\<open>IndexError\<close> of
  \<^verbatim>\<open>columns[column][0]\<close>, which is not caught. The result is \<open>None\<close> where the code
  returns from inside the loop, and the collected list \<^verbatim>\<open>data\<close> where the loop ends.
\<close>

fun get_loop ::
  "family_cells \<Rightarrow> bool \<Rightarrow> datetime \<Rightarrow> bytes list \<Rightarrow> bytes list \<Rightarrow> error + bytes list option" where
  "get_loop cols has_ttl now data [] = Inr (Some data)"
| "get_loop cols has_ttl now data (column # rest) =
     (case cols column of
        None \<Rightarrow> Inr (Some data)
      | Some [] \<Rightarrow> Inl IndexError
      | Some (c # cs) \<Rightarrow>
          if has_ttl \<and> cell_timestamp c < now then Inr None
          else get_loop cols has_ttl now (data @ [cell_value c]) rest)"

text \<open>
  \<^verbatim>\<open>get\<close> after \<^verbatim>\<open>self.connection.read_row(id)\<close> has returned \<open>row\<close>. The result
  \<open>Inr None\<close> is the Python value \<open>None\<close> of the two \<^verbatim>\<open>return\<close> statements, and
  \<open>Inr (Some v)\<close> the value \<open>v\<close> that the decoder \<^verbatim>\<open>json_loads\<close> returns.
\<close>

definition get_cells ::
  "node_storage \<Rightarrow> (bytes \<Rightarrow> error + 'v) \<Rightarrow> datetime \<Rightarrow> row_cells option \<Rightarrow> error + 'v option" where
  "get_cells self json_loads now row =
     (case row of
        None \<Rightarrow> Inr None
      | Some cells \<Rightarrow>
          (case cells column_family of
             None \<Rightarrow> Inl KeyError
           | Some cols \<Rightarrow>
               (let has_ttl = (cols ttl_column \<noteq> None)
                in case get_loop cols has_ttl now [] (columns self) of
                     Inl e \<Rightarrow> Inl e
                   | Inr None \<Rightarrow> Inr None
                   | Inr (Some data) \<Rightarrow>
                       (case json_loads (join data) of
                          Inl e \<Rightarrow> Inl e
                        | Inr v \<Rightarrow> Inr (Some v)))))"

section \<open>The store\<close>

text \<open>
  The wide-column store and its client are external collaborators and not part of the
  source. The specification describes the store as rows that are sparse maps from (column
  family, column, timestamp) to a value, changed by one atomic row mutation that applies
  its entries in order, and read one row at a time.
\<close>

text \<open>
  Modelled from the spec: a column holds one value per timestamp (the store client is
  missing); the cells of a column are kept newest first, and a write at the timestamp of a
  cell replaces it.
\<close>

fun insert_cell :: "cell \<Rightarrow> cell list \<Rightarrow> cell list" where
  "insert_cell c [] = [c]"
| "insert_cell c (d # ds) =
     (if cell_timestamp d < cell_timestamp c then c # d # ds
      else if cell_timestamp d = cell_timestamp c then c # ds
      else d # insert_cell c ds)"

text \<open>
  Modelled from the spec: the effect of one entry of a row mutation on the cells of the row
  (the store is missing). A row delete removes every cell; a cell write without a timestamp
  is stamped with the time \<open>srv\<close> of the store.
\<close>

fun apply_mutation :: "datetime \<Rightarrow> row_cells \<Rightarrow> mutation \<Rightarrow> row_cells" where
  "apply_mutation srv cells DeleteFromRow = Map.empty"
| "apply_mutation srv cells (SetCell f c v ts) =
     (let cols = (case cells f of None \<Rightarrow> Map.empty | Some m \<Rightarrow> m);
          old = (case cols c of None \<Rightarrow> [] | Some cs \<Rightarrow> cs);
          new = \<lparr>cell_value = v, cell_timestamp = (case ts of None \<Rightarrow> srv | Some t \<Rightarrow> t)\<rparr>
      in cells(f \<mapsto> cols(c \<mapsto> insert_cell new old)))"

text \<open>
  Modelled from the spec: the entries of a row mutation are applied in the order in which
  the row object collected them (the store is missing).
\<close>

definition apply_mutations :: "datetime \<Rightarrow> row_cells \<Rightarrow> mutation list \<Rightarrow> row_cells" where
  "apply_mutations srv cells muts = foldl (apply_mutation srv) cells muts"

text \<open>
  Modelled from the spec: a table gives every row key its cells, none for a row that does
  not exist, and \<^verbatim>\<open>read_row\<close> returns no row where there is no cell (the store client is
  missing).
\<close>

type_synonym table = "bytes \<Rightarrow> row_cells"

definition read_row :: "table \<Rightarrow> bytes \<Rightarrow> row_cells option" where
  "read_row tbl key = (if tbl key = Map.empty then None else Some (tbl key))"

text \<open>
  Modelled from the spec: \<^verbatim>\<open>mutate_rows([row])\<close> applies the mutation of the one row
  atomically and leaves every other row alone (the store client is missing).
\<close>

definition mutate_rows :: "datetime \<Rightarrow> table \<Rightarrow> bytes \<Rightarrow> mutation list \<Rightarrow> table" where
  "mutate_rows srv tbl key muts = tbl(key := apply_mutations srv (tbl key) muts)"

section \<open>The operations against a table\<close>

text \<open>
  \<^verbatim>\<open>get\<close>, \<^verbatim>\<open>set\<close> and \<^verbatim>\<open>delete\<close> with the table passed explicitly. \<open>srv\<close> is
  the time of the store when the mutation is applied. An exception raised before
  \<^verbatim>\<open>mutate_rows\<close> is the result \<open>Inl\<close>: no table is returned, as no request was sent.
\<close>

definition get ::
  "node_storage \<Rightarrow> (bytes \<Rightarrow> error + 'v) \<Rightarrow> datetime \<Rightarrow> table \<Rightarrow> bytes \<Rightarrow> error + 'v option" where
  "get self json_loads now tbl key = get_cells self json_loads now (read_row tbl key)"

definition set_node ::
  "node_storage \<Rightarrow> datetime \<Rightarrow> datetime \<Rightarrow> table \<Rightarrow> bytes \<Rightarrow> bytes \<Rightarrow> timedelta option
     \<Rightarrow> error + table" where
  "set_node self now srv tbl key data ttl =
     (case set_row self now data ttl of
        Inl e \<Rightarrow> Inl e
      | Inr muts \<Rightarrow> Inr (mutate_rows srv tbl key muts))"

definition delete :: "datetime \<Rightarrow> table \<Rightarrow> bytes \<Rightarrow> table" where
  "delete srv tbl key = mutate_rows srv tbl key [DeleteFromRow]"

section \<open>Example rows\<close>

text \<open>
  Two rows as \<^verbatim>\<open>read_row\<close> may return them, for the evaluation of \<^verbatim>\<open>get\<close>: one
  whose TTL cell is older than its chunk cell, and one that has a TTL cell and no chunk.
\<close>

definition mismatched_row :: row_cells where
  "mismatched_row =
     [column_family \<mapsto>
        [ttl_column \<mapsto> [\<lparr>cell_value = ''<'', cell_timestamp = 5\<rparr>],
         ''0'' \<mapsto> [\<lparr>cell_value = ''ab'', cell_timestamp = 20\<rparr>]]]"

definition ttl_only_row :: row_cells where
  "ttl_only_row =
     [column_family \<mapsto> [ttl_column \<mapsto> [\<lparr>cell_value = ''<'', cell_timestamp = 5\<rparr>]]]"

text \<open>
  A table in which the row \<open>id\<close> holds a blob of 25 bytes in three chunk columns, written
  at store time 3 without a TTL.
\<close>

definition large_table :: table where
  "large_table =
     (\<lambda>k. Map.empty)(''id'' :=
        [column_family \<mapsto>
           [''0'' \<mapsto> [\<lparr>cell_value = ''abcdefghij'', cell_timestamp = 3\<rparr>],
            ''1'' \<mapsto> [\<lparr>cell_value = ''klmnopqrst'', cell_timestamp = 3\<rparr>],
            ''2'' \<mapsto> [\<lparr>cell_value = ''uvwxy'', cell_timestamp = 3\<rparr>]]])"

text \<open>
  The table of the example in the specification: the row \<open>id\<close> holds a blob of 25
  bytes written at time 1000 s with a TTL of 60 s, every cell stamped 1060 s.
\<close>

definition expiring_table :: table where
  "expiring_table =
     (\<lambda>k. Map.empty)(''id'' :=
        [column_family \<mapsto>
           [ttl_column \<mapsto> [\<lparr>cell_value = [CHR ''<'', CHR 0x00, CHR 0x00, CHR 0x00],
                                     cell_timestamp = 1060000000\<rparr>],
            ''0'' \<mapsto> [\<lparr>cell_value = ''abcdefghij'', cell_timestamp = 1060000000\<rparr>],
            ''1'' \<mapsto> [\<lparr>cell_value = ''klmnopqrst'', cell_timestamp = 1060000000\<rparr>],
            ''2'' \<mapsto> [\<lparr>cell_value = ''uvwxy'', cell_timestamp = 1060000000\<rparr>]]])"

section \<open>The chunks written by \<^verbatim>\<open>set\<close>\<close>

text \<open>
  The loop of \<^verbatim>\<open>set\<close> in closed form: what its chunks are, how many there are, and
  what their concatenation is.
\<close>

lemma set_loop_values_ts:
  "map mutation_value (set_loop bpc data ts idx cols) = map mutation_value (set_loop bpc data ts' idx cols)"
  by (induction cols arbitrary: idx) (simp_all add: Let_def)

lemma set_loop_concat:
  "concat (map mutation_value (set_loop bpc data ts idx cols)) =
     take (bpc * length cols) (drop (idx * bpc) data)"
proof (induction cols arbitrary: idx)
  case Nil
  show ?case by simp
next
  case (Cons column rest)
  show ?case
  proof (cases "take bpc (drop (idx * bpc) data) = []")
    case True
    then have "bpc = 0 \<or> drop (idx * bpc) data = []" by (simp add: take_eq_Nil)
    then have "take (bpc * length (column # rest)) (drop (idx * bpc) data) = []" by auto
    with True show ?thesis by simp
  next
    case False
    have d: "drop bpc (drop (idx * bpc) data) = drop ((idx + 1) * bpc) data"
      by (simp add: add.commute)
    have "take (bpc * length (column # rest)) (drop (idx * bpc) data) =
            take bpc (drop (idx * bpc) data) @
            take (bpc * length rest) (drop bpc (drop (idx * bpc) data))"
      by (simp only: take_add [symmetric] list.size) simp
    with False Cons.IH [of "idx + 1"] d show ?thesis by (simp add: Let_def)
  qed
qed

lemma ceil_div_step:
  fixes a b l :: nat
  assumes "0 < b" and "a < l"
  shows "(l - a + b - 1) div b = Suc ((l - (a + b) + b - 1) div b)"
proof (cases "l \<le> a + b")
  case True
  from less_imp_Suc_add [OF assms(2)] obtain k where k: "l = a + Suc k" by auto
  with True have "k < b" by simp
  from k have "(l - a + b - 1) div b = (k + b) div b" by simp
  also have "\<dots> = Suc (k div b)" using assms(1) div_add_self2 [of b k] by simp
  also have "k div b = 0" using \<open>k < b\<close> by simp
  finally have "(l - a + b - 1) div b = Suc 0" .
  moreover from True assms(1) have "(l - (a + b) + b - 1) div b = 0" by simp
  ultimately show ?thesis by simp
next
  case False
  then have "a + b < l" by simp
  from less_imp_Suc_add [OF this] obtain k where k: "l = a + b + Suc k" by auto
  then have "l - a + b - 1 = k + b + b" by simp
  then have "(l - a + b - 1) div b = (k + b + b) div b" by (simp only:)
  also have "\<dots> = Suc ((k + b) div b)" using assms(1) div_add_self2 [of b "k + b"] by simp
  also from k have "k + b = l - (a + b) + b - 1" by simp
  finally show ?thesis .
qed

lemma set_loop_length:
  assumes "0 < bpc"
  shows "length (set_loop bpc data ts idx cols) =
           min (length cols) ((length data - idx * bpc + bpc - 1) div bpc)"
  using assms
proof (induction cols arbitrary: idx)
  case Nil
  show ?case by simp
next
  case (Cons column rest)
  show ?case
  proof (cases "length data \<le> idx * bpc")
    case True
    with Cons.prems show ?thesis by simp
  next
    case False
    then have pos: "idx * bpc < length data" by simp
    have step: "(length data - idx * bpc + bpc - 1) div bpc =
            Suc ((length data - (idx + 1) * bpc + bpc - 1) div bpc)"
    proof -
      have "(idx + 1) * bpc = idx * bpc + bpc" by simp
      with ceil_div_step [OF Cons.prems pos] show ?thesis by (simp only:)
    qed
    from pos Cons.prems have "take bpc (drop (idx * bpc) data) \<noteq> []" by simp
    then have "length (set_loop bpc data ts idx (column # rest)) =
                 Suc (length (set_loop bpc data ts (idx + 1) rest))"
      by (simp add: Let_def)
    also have "\<dots> = Suc (min (length rest) ((length data - (idx + 1) * bpc + bpc - 1) div bpc))"
      using Cons.IH [OF Cons.prems, of "idx + 1"] by simp
    also have "\<dots> = min (length (column # rest)) ((length data - idx * bpc + bpc - 1) div bpc)"
      unfolding step by simp
    finally show ?thesis .
  qed
qed

lemma set_loop_nth:
  assumes "i < length (set_loop bpc data ts idx cols)"
  shows "set_loop bpc data ts idx cols ! i =
           SetCell column_family (cols ! i) (take bpc (drop ((idx + i) * bpc) data)) ts"
  using assms
proof (induction cols arbitrary: idx i)
  case Nil
  then show ?case by simp
next
  case (Cons column rest)
  show ?case
  proof (cases i)
    case 0
    with Cons.prems show ?thesis by (simp add: Let_def split: if_splits)
  next
    case (Suc j)
    with Cons.prems have "j < length (set_loop bpc data ts (idx + 1) rest)"
      by (simp add: Let_def split: if_splits)
    from Cons.IH [OF this] Suc Cons.prems show ?thesis
      by (simp add: Let_def split: if_splits)
  qed
qed

lemma split_length:
  assumes "0 < bytes_per_column self"
  shows "length (split self data) =
           min (length (columns self))
               ((length data + bytes_per_column self - 1) div bytes_per_column self)"
  using set_loop_length [OF assms, of data None 0 "columns self"] by (simp add: split_def)

lemma split_nth:
  assumes "i < length (split self data)"
  shows "split self data ! i =
           take (bytes_per_column self) (drop (i * bytes_per_column self) data)"
proof -
  from assms have "i < length (set_loop (bytes_per_column self) data None 0 (columns self))"
    by (simp add: split_def)
  from set_loop_nth [OF this] this show ?thesis by (simp add: split_def)
qed

lemma join_split:
  "join (split self data) = take (bytes_per_column self * length (columns self)) data"
  using set_loop_concat [of "bytes_per_column self" data None 0 "columns self"]
  by (simp add: join_def split_def)

lemma ceil_div_le:
  fixes b n l :: nat
  assumes "0 < b" and "l \<le> b * n"
  shows "(l + b - 1) div b \<le> n"
proof -
  from assms have "l + b - 1 < b * n + b" by simp
  then have "l + b - 1 < b * Suc n" by simp
  then have "(l + b - 1) div b < Suc n"
    using assms(1) by (simp add: less_mult_imp_div_less mult.commute)
  then show ?thesis by simp
qed

lemma below_ceil_div:
  fixes b i l :: nat
  assumes "0 < b" and "Suc i < (l + b - 1) div b"
  shows "Suc i * b < l"
proof -
  from assms(2) have "Suc (Suc i) \<le> (l + b - 1) div b" by simp
  then have "Suc (Suc i) * b \<le> (l + b - 1) div b * b" by (rule mult_le_mono1)
  also have "\<dots> \<le> l + b - 1" by (rule div_times_less_eq_dividend)
  finally have "Suc i * b + b \<le> l + b - 1" by simp
  with assms(1) show ?thesis by simp
qed

lemma set_loop_take:
  "set_loop bpc data ts idx cols =
     set_loop bpc (take (bpc * (idx + length cols)) data) ts idx cols"
proof (induction cols arbitrary: idx data)
  case Nil
  show ?case by simp
next
  case (Cons column rest)
  let ?m = "bpc * (idx + length (column # rest))"
  have chunk: "take bpc (drop (idx * bpc) (take ?m data)) = take bpc (drop (idx * bpc) data)"
    by (simp add: drop_take algebra_simps min_def)
  have m: "?m = bpc * (idx + 1 + length rest)" by simp
  have rec: "set_loop bpc (take ?m data) ts (idx + 1) rest = set_loop bpc data ts (idx + 1) rest"
    using Cons.IH [of "take ?m data" "idx + 1"] Cons.IH [of data "idx + 1"]
    by (simp only: m take_take min.idem)
  show ?case by (simp only: set_loop.simps Let_def chunk rec)
qed

lemma set_loop_timestamp:
  "m \<in> set (set_loop bpc data ts idx cols) \<Longrightarrow> mutation_timestamp m = ts"
  by (induction cols arbitrary: idx) (auto simp: Let_def split: if_splits)

lemma set_loop_column:
  "m \<in> set (set_loop bpc data ts idx cols) \<Longrightarrow> \<exists>c \<in> set cols. writes_column c m"
  by (induction cols arbitrary: idx) (auto simp: Let_def split: if_splits)

lemma set_loop_writes_only:
  "m \<in> set (set_loop bpc data ts idx cols) \<Longrightarrow> writes_column c m \<Longrightarrow> c \<in> set cols"
  by (induction cols arbitrary: idx) (auto simp: Let_def split: if_splits)

lemma text_type_last: "\<exists>xs. text_type n = xs @ [char_of (48 + n mod 10)]"
  by (subst text_type.simps) simp

lemma ttl_column_not_chunk: "ttl_column \<notin> set (columns self)"
proof
  assume "ttl_column \<in> set (columns self)"
  then obtain n where "text_type n = ''t''" by (auto simp: columns_def ttl_column_def)
  with text_type_last [of n] obtain xs where "''t'' = xs @ [char_of (48 + n mod 10)]" by auto
  then have "char_of (48 + n mod 10) = CHR ''t''" by (cases xs) auto
  then have "(of_char (char_of (48 + n mod 10)) :: nat) = of_char CHR ''t''" by (simp only:)
  then have "(48 + n mod 10) mod 256 = (116 :: nat)" by simp
  moreover have "n mod 10 < 10" by simp
  ultimately show False by simp
qed

section \<open>The TTL value\<close>

lemma unpack_I_four:
  "unpack_I [char_of (k0::int), char_of (k1::int), char_of (k2::int), char_of (k3::int)] =
     k0 mod 256 + 256 * (k1 mod 256 + 256 * (k2 mod 256 + 256 * (k3 mod 256)))"
  by (simp only: unpack_I.simps of_char_of mult_zero_right add_0_right)

lemma four_bytes:
  fixes n :: int
  assumes "0 \<le> n" and "n < 2 ^ 32"
  shows "n mod 256 + 256 * (n div 2 ^ 8 mod 256 + 256 * (n div 2 ^ 16 mod 256 +
           256 * (n div 2 ^ 24 mod 256))) = n"
proof -
  define a where "a = n div 256"
  define b where "b = a div 256"
  define c where "c = b div 256"
  define r0 where "r0 = n mod 256"
  define r1 where "r1 = a mod 256"
  define r2 where "r2 = b mod 256"
  have n: "n = r0 + 256 * a" by (simp add: a_def r0_def)
  have a: "a = r1 + 256 * b" by (simp add: b_def r1_def)
  have b: "b = r2 + 256 * c" by (simp add: c_def r2_def)
  have d8: "n div 2 ^ 8 = a" by (simp add: a_def)
  have d16: "n div 2 ^ 16 = b" by (simp add: a_def b_def zdiv_zmult2_eq [symmetric])
  have d24: "n div 2 ^ 24 = c" by (simp add: a_def b_def c_def zdiv_zmult2_eq [symmetric])
  have "n < 256 * 2 ^ 24" using assms(2) by simp
  then have "n div 2 ^ 24 < 256" by (simp add: div_less_iff_less_mult)
  moreover have "0 \<le> n div 2 ^ 24" using assms(1) by (simp add: pos_imp_zdiv_nonneg_iff)
  ultimately have c: "c mod 256 = c" unfolding d24 by simp
  have "r0 + 256 * (r1 + 256 * (r2 + 256 * c)) = r0 + 256 * (r1 + 256 * b)"
    by (simp only: b [symmetric])
  also have "\<dots> = r0 + 256 * a" by (simp only: a [symmetric])
  also have "\<dots> = n" by (simp only: n [symmetric])
  finally have "r0 + 256 * (r1 + 256 * (r2 + 256 * c)) = n" .
  then show ?thesis unfolding d8 d16 d24 c r0_def r1_def r2_def .
qed

lemma unpack_pack:
  assumes "0 \<le> n" and "n < 2 ^ 32"
  shows "\<exists>v. pack_I n = Inr v \<and> length v = 4 \<and> unpack_I v = n"
proof -
  let ?v = "[char_of n, char_of (n div 2 ^ 8), char_of (n div 2 ^ 16), char_of (n div 2 ^ 24)]"
  have p: "pack_I n = Inr ?v"
    using assms by (simp add: pack_I_def)
  have l: "length ?v = 4" by simp
  have u: "unpack_I ?v = n"
    by (simp only: unpack_I_four four_bytes [OF assms])
  from p l u show ?thesis by blast
qed

lemma div_mod_bounds:
  fixes e :: int
  assumes "0 \<le> e"
  shows "e div 1000000 * 1000000 \<le> e \<and> e < (e div 1000000 + 1) * 1000000"
proof -
  define q where "q = e div 1000000"
  define r where "r = e mod 1000000"
  have "e = q * 1000000 + r" by (simp add: q_def r_def)
  moreover have "0 \<le> r" "r < 1000000" by (simp_all add: r_def)
  ultimately have "q * 1000000 \<le> e \<and> e < (q + 1) * 1000000" by simp
  then show ?thesis by (simp only: q_def)
qed

lemma int_total_seconds_trunc:
  "\<bar>int_total_seconds d\<bar> * 1000000 \<le> \<bar>d\<bar> \<and>
   \<bar>d\<bar> < (\<bar>int_total_seconds d\<bar> + 1) * 1000000"
proof (cases "0 \<le> d")
  case True
  then have "0 \<le> d div 1000000" by (simp add: pos_imp_zdiv_nonneg_iff)
  with True div_mod_bounds [of d] show ?thesis by (simp add: int_total_seconds_def)
next
  case False
  define q where "q = (- d) div 1000000"
  from False have neg: "0 \<le> - d" by simp
  from False have ad: "\<bar>d\<bar> = - d" by simp
  have q0: "0 \<le> q" unfolding q_def using neg by (simp add: pos_imp_zdiv_nonneg_iff)
  have "int_total_seconds d = - q" unfolding q_def using False by (simp add: int_total_seconds_def)
  with q0 have ts: "\<bar>int_total_seconds d\<bar> = q" by simp
  show ?thesis unfolding ts ad q_def by (rule div_mod_bounds [OF neg])
qed

lemma micro_div_less_iff:
  fixes e n :: int
  shows "e div 1000000 < n \<longleftrightarrow> e < n * 1000000"
proof -
  define q where "q = e div 1000000"
  define r where "r = e mod 1000000"
  have e: "e = q * 1000000 + r" by (simp add: q_def r_def)
  have r: "0 \<le> r" "r < 1000000" by (simp_all add: r_def)
  have "q < n \<longleftrightarrow> q * 1000000 + r < n * 1000000" using r by arith
  then show ?thesis unfolding q_def [symmetric] e [symmetric] .
qed

lemma pack_I_ok_iff:
  "(0 \<le> int_total_seconds d \<and> int_total_seconds d < 2 ^ 32) \<longleftrightarrow>
     (- 1000000 < d \<and> d < 4294967296000000)"
proof (cases "0 \<le> d")
  case True
  then have "0 \<le> d div 1000000" by (simp add: pos_imp_zdiv_nonneg_iff)
  moreover have "d div 1000000 < 4294967296 \<longleftrightarrow> d < 4294967296000000"
    using micro_div_less_iff [of d 4294967296] by simp
  ultimately show ?thesis using True by (simp add: int_total_seconds_def)
next
  case False
  then have neg: "0 \<le> - d" by simp
  define q where "q = (- d) div 1000000"
  have q0: "0 \<le> q" unfolding q_def using neg by (simp add: pos_imp_zdiv_nonneg_iff)
  have "q < 1 \<longleftrightarrow> - d < 1000000"
    unfolding q_def using micro_div_less_iff [of "- d" 1] by simp
  with q0 have "q = 0 \<longleftrightarrow> - 1000000 < d" by auto
  moreover have "int_total_seconds d = - q"
    unfolding q_def using False by (simp add: int_total_seconds_def)
  ultimately show ?thesis using q0 False by auto
qed

lemma set_row_None:
  assumes "py_or ttl (default_ttl self) = None"
  shows "set_row self now data ttl =
           Inr (DeleteFromRow # set_loop (bytes_per_column self) data None 0 (columns self))"
  using assms by (simp add: set_row_def)

lemma set_row_Some:
  assumes "py_or ttl (default_ttl self) = Some d"
  shows "set_row self now data ttl =
           (if 0 \<le> now + d \<and> now + d < datetime_end
            then (case pack_I (int_total_seconds d) of
                    Inl e \<Rightarrow> Inl e
                  | Inr v \<Rightarrow>
                      Inr (DeleteFromRow # SetCell column_family ttl_column v (Some (now + d)) #
                           set_loop (bytes_per_column self) data (Some (now + d)) 0 (columns self)))
            else Inl OverflowError)"
  using assms by (simp add: set_row_def datetime_add_def)

lemma set_row_take:
  "set_row self now data ttl =
     set_row self now (take (bytes_per_column self * length (columns self)) data) ttl"
proof -
  have "set_loop (bytes_per_column self) data ts 0 (columns self) =
          set_loop (bytes_per_column self)
            (take (bytes_per_column self * length (columns self)) data) ts 0 (columns self)" for ts
    using set_loop_take [of "bytes_per_column self" data ts 0 "columns self"] by simp
  then show ?thesis by (simp only: set_row_def)
qed

section \<open>Concrete configurations\<close>

lemma example_storage_simps:
  "bytes_per_column example_storage = 10"
  "max_size example_storage = 30"
  "default_ttl example_storage = None"
  by (simp_all add: example_storage_def)

lemma BigtableNodeStorage_simps:
  "bytes_per_column BigtableNodeStorage = 10485760"
  "max_size BigtableNodeStorage = 104857600"
  "default_ttl BigtableNodeStorage = None"
  by (simp_all add: BigtableNodeStorage_def)

lemma columns_example: "columns example_storage = [''0'', ''1'', ''2'']"
  by (simp add: columns_def example_storage_simps upt_conv_Cons text_type.simps char_of_def bit_Suc_0_iff)

lemma columns_BigtableNodeStorage:
  "columns BigtableNodeStorage = map (\<lambda>d. [d]) ''0123456789''"
  by (simp add: columns_def BigtableNodeStorage_simps upt_conv_Cons text_type.simps char_of_def bit_Suc_0_iff)

lemma split_example:
  "split example_storage ''abcdefghijklmnopqrstuvwxy'' = [''abcdefghij'', ''klmnopqrst'', ''uvwxy'']"
  by (simp add: split_def columns_example example_storage_simps)

text \<open>
  With the constants of the source the chunk columns hold exactly \<^verbatim>\<open>max_size\<close> bytes, so
  every blob of at most 100 MiB is written whole.
\<close>

lemma BigtableNodeStorage_capacity:
  "bytes_per_column BigtableNodeStorage * length (columns BigtableNodeStorage) =
     max_size BigtableNodeStorage"
  by (simp add: columns_BigtableNodeStorage BigtableNodeStorage_simps)

lemma BigtableNodeStorage_roundtrip:
  assumes "length data \<le> max_size BigtableNodeStorage"
  shows "join (split BigtableNodeStorage data) = data"
  using assms by (simp add: join_split BigtableNodeStorage_capacity)

section \<open>Chunking\<close>

text \<open>
  Claim C2. For every blob whose length is at most \<open>chunkSize * maxChunks\<close> (the
  configured maximum size; \<open>maxChunks\<close> is the number of chunk columns), the chunks that
  \<^verbatim>\<open>set\<close> writes, joined in index order as \<^verbatim>\<open>get\<close> joins them, are the blob.
\<close>

theorem split_join_roundtrip:
  assumes "length data \<le> bytes_per_column self * length (columns self)"
  shows "join (split self data) = data"
  using assms by (simp add: join_split)

theorem split_join_roundtrip_witness:
  "length ''abcdefghijklmnopqrstuvwxy''
     \<le> bytes_per_column example_storage * length (columns example_storage)
   \<and> join (split example_storage ''abcdefghijklmnopqrstuvwxy'') = ''abcdefghijklmnopqrstuvwxy''"
  using split_join_roundtrip [of "''abcdefghijklmnopqrstuvwxy''" example_storage]
  by (simp add: columns_example example_storage_simps)

text \<open>
  Claim C8 states that \<^verbatim>\<open>set\<close> writes \<open>ceil (len / chunkSize)\<close> chunks for every blob.
  The loop ends with the last chunk column: with the constants of the source, a blob of
  100 MiB and one byte is written in 10 chunks, where the quotient rounds up to 11.
\<close>

theorem split_chunk_count_counterexample:
  "length (split BigtableNodeStorage (replicate 104857601 CHR ''a'')) = 10
   \<and> (length (replicate 104857601 CHR ''a'') + bytes_per_column BigtableNodeStorage - 1)
         div bytes_per_column BigtableNodeStorage = 11"
  by (simp add: split_def columns_BigtableNodeStorage BigtableNodeStorage_simps)

text \<open>
  Claim C8, amended. For every blob and a positive chunk size, \<^verbatim>\<open>set\<close> writes
  \<open>ceil (len / chunkSize)\<close> chunks, but never more than there are chunk columns: the
  smaller of the two numbers, which is \<open>ceil (len / chunkSize)\<close> for every blob of at most
  \<open>chunkSize * maxChunks\<close> bytes. It writes no chunk for the empty blob; every chunk but
  the last has exactly \<open>chunkSize\<close> bytes, and no chunk is empty or longer than that.
\<close>

theorem split_chunk_count:
  assumes "0 < bytes_per_column self"
  shows "length (split self data) =
           min ((length data + bytes_per_column self - 1) div bytes_per_column self)
               (length (columns self))
         \<and> (length data \<le> bytes_per_column self * length (columns self) \<longrightarrow>
              length (split self data) =
                (length data + bytes_per_column self - 1) div bytes_per_column self)
         \<and> (data = [] \<longrightarrow> split self data = [])
         \<and> (\<forall>i. Suc i < length (split self data) \<longrightarrow>
                length (split self data ! i) = bytes_per_column self)
         \<and> (\<forall>i < length (split self data).
                0 < length (split self data ! i) \<and>
                length (split self data ! i) \<le> bytes_per_column self)"
proof -
  let ?b = "bytes_per_column self"
  let ?n = "(length data + ?b - 1) div ?b"
  have len: "length (split self data) = min ?n (length (columns self))"
    using split_length [OF assms, of data] by (simp add: min.commute)
  then have le: "length (split self data) \<le> ?n" by simp
  have within: "length (split self data) = ?n"
    if "length data \<le> ?b * length (columns self)"
    using len ceil_div_le [OF assms that] by simp
  have empty: "data = [] \<longrightarrow> split self data = []"
    using len assms by auto
  have full: "length (split self data ! i) = ?b" if "Suc i < length (split self data)" for i
  proof -
    from that le have "Suc i < ?n" by simp
    then have "Suc i * ?b < length data"
      using below_ceil_div [OF assms, of i "length data"] by simp
    then have "?b \<le> length data - i * ?b" by simp
    moreover from that have "i < length (split self data)" by simp
    ultimately show ?thesis by (simp add: split_nth)
  qed
  have some: "0 < length (split self data ! i) \<and> length (split self data ! i) \<le> ?b"
    if "i < length (split self data)" for i
  proof -
    from that le have "Suc i \<le> ?n" by simp
    then have "Suc i * ?b \<le> ?n * ?b" by (rule mult_le_mono1)
    also have "\<dots> \<le> length data + ?b - 1" by (rule div_times_less_eq_dividend)
    finally have "i * ?b + ?b \<le> length data + ?b - 1" by simp
    then have "i * ?b < length data" using assms by simp
    with that assms show ?thesis by (simp add: split_nth)
  qed
  from len within empty full some show ?thesis by blast
qed

theorem split_chunk_count_witness:
  "0 < bytes_per_column example_storage
   \<and> length (split example_storage ''abcdefghijklmnopqrstuvwxy'') = 3
   \<and> length (split example_storage ''abcdefghijklmnopqrstuvwxy'' ! 0) = 10
   \<and> length (split example_storage ''abcdefghijklmnopqrstuvwxyzABCDE'') = 3
   \<and> split example_storage [] = []"
  using split_chunk_count [of example_storage "''abcdefghijklmnopqrstuvwxy''"]
    split_chunk_count [of example_storage "''abcdefghijklmnopqrstuvwxyzABCDE''"]
    split_chunk_count [of example_storage "[]"]
  by (simp add: columns_example example_storage_simps)

section \<open>Blobs beyond the maximum size\<close>

text \<open>
  Claim C1 states that \<^verbatim>\<open>set\<close> fails with \<^verbatim>\<open>PayloadTooLarge\<close> for a blob longer
  than \<open>chunkSize * maxChunks\<close>, before any request to the store. The code has no such
  check: with the constants of the source, a blob of 100 MiB and one byte is accepted, and
  the row mutation carries ten chunks of 10 MiB.
\<close>

theorem set_oversize_counterexample:
  "bytes_per_column BigtableNodeStorage * length (columns BigtableNodeStorage)
     < length (replicate 104857601 CHR ''a'')
   \<and> set_row BigtableNodeStorage 0 (replicate 104857601 CHR ''a'') None =
       Inr [DeleteFromRow,
            SetCell ''x'' ''0'' (replicate 10485760 CHR ''a'') None,
            SetCell ''x'' ''1'' (replicate 10485760 CHR ''a'') None,
            SetCell ''x'' ''2'' (replicate 10485760 CHR ''a'') None,
            SetCell ''x'' ''3'' (replicate 10485760 CHR ''a'') None,
            SetCell ''x'' ''4'' (replicate 10485760 CHR ''a'') None,
            SetCell ''x'' ''5'' (replicate 10485760 CHR ''a'') None,
            SetCell ''x'' ''6'' (replicate 10485760 CHR ''a'') None,
            SetCell ''x'' ''7'' (replicate 10485760 CHR ''a'') None,
            SetCell ''x'' ''8'' (replicate 10485760 CHR ''a'') None,
            SetCell ''x'' ''9'' (replicate 10485760 CHR ''a'') None]"
  by (simp add: set_row_def py_or_def columns_BigtableNodeStorage column_family_def
        BigtableNodeStorage_simps)

text \<open>
  Claim C1, amended. For a positive chunk size and a blob longer than
  \<open>chunkSize * maxChunks\<close>, \<^verbatim>\<open>set\<close> behaves exactly as on the first
  \<open>chunkSize * maxChunks\<close> bytes of the blob: it writes \<open>maxChunks\<close> chunks, which join
  to that prefix, and the rest of the blob is dropped without an error.
\<close>

theorem set_oversize_truncates:
  assumes "0 < bytes_per_column self"
    and "bytes_per_column self * length (columns self) < length data"
  shows "set_row self now data ttl =
           set_row self now (take (bytes_per_column self * length (columns self)) data) ttl
         \<and> set_node self now srv tbl key data ttl =
           set_node self now srv tbl key
             (take (bytes_per_column self * length (columns self)) data) ttl
         \<and> length (split self data) = length (columns self)
         \<and> join (split self data) = take (bytes_per_column self * length (columns self)) data"
proof -
  let ?b = "bytes_per_column self"
  let ?n = "length (columns self)"
  have row: "set_row self now data ttl = set_row self now (take (?b * ?n) data) ttl"
    by (rule set_row_take)
  then have node: "set_node self now srv tbl key data ttl =
                     set_node self now srv tbl key (take (?b * ?n) data) ttl"
    by (simp only: set_node_def)
  from assms(2) have "?n * ?b \<le> length data + ?b - 1" by (simp add: mult.commute)
  then have "?n \<le> (length data + ?b - 1) div ?b"
    using assms(1) by (simp add: less_eq_div_iff_mult_less_eq)
  then have len: "length (split self data) = ?n"
    using split_length [OF assms(1), of data] by simp
  from row node len join_split [of self data] show ?thesis by blast
qed

theorem set_oversize_truncates_witness:
  "0 < bytes_per_column example_storage
   \<and> bytes_per_column example_storage * length (columns example_storage)
       < length ''abcdefghijklmnopqrstuvwxyzABCDE''
   \<and> set_row example_storage 0 ''abcdefghijklmnopqrstuvwxyzABCDE'' None =
       set_row example_storage 0 ''abcdefghijklmnopqrstuvwxyzABCD'' None
   \<and> join (split example_storage ''abcdefghijklmnopqrstuvwxyzABCDE'') =
       ''abcdefghijklmnopqrstuvwxyzABCD''"
  using set_oversize_truncates [of example_storage "''abcdefghijklmnopqrstuvwxyzABCDE''" 0 None]
  by (simp add: columns_example example_storage_simps)

section \<open>The requested TTL\<close>



section \<open>The TTL cell and the timestamps\<close>

lemma pack_I_example: "pack_I 60 = Inr [CHR ''<'', CHR 0x00, CHR 0x00, CHR 0x00]"
  by (simp add: pack_I_def char_of_def)

lemma pack_I_zero: "pack_I 0 = Inr [CHR 0x00, CHR 0x00, CHR 0x00, CHR 0x00]"
  by (simp add: pack_I_def char_of_def)

text \<open>
  Claim C4. Whenever a TTL resolves (the requested one, or else the default) and
  \<^verbatim>\<open>set\<close> gets as far as the row mutation, the mutation is the row delete, then the
  TTL cell, then the chunk cells; every cell is stamped \<open>now + ttl\<close>, and the value of the
  TTL cell has four bytes that decode, least significant byte first, to the whole seconds of
  the TTL, the part below a second cut off.
\<close>

theorem set_ttl_cells_stamped:
  assumes "py_or ttl (default_ttl self) = Some d"
    and "set_row self now data ttl = Inr muts"
  shows "\<exists>v. muts = DeleteFromRow # SetCell column_family ttl_column v (Some (now + d)) #
                  set_loop (bytes_per_column self) data (Some (now + d)) 0 (columns self)
             \<and> length v = 4
             \<and> unpack_I v * 1000000 \<le> \<bar>d\<bar> \<and> \<bar>d\<bar> < (unpack_I v + 1) * 1000000
             \<and> (\<forall>m \<in> set (tl muts). mutation_timestamp m = Some (now + d))"
proof -
  let ?s = "int_total_seconds d"
  let ?l = "set_loop (bytes_per_column self) data (Some (now + d)) 0 (columns self)"
  from assms have range: "0 \<le> now + d \<and> now + d < datetime_end"
    by (simp add: set_row_Some split: if_splits)
  with assms have packed: "(case pack_I ?s of Inl e \<Rightarrow> Inl e
      | Inr v \<Rightarrow> Inr (DeleteFromRow # SetCell column_family ttl_column v (Some (now + d)) # ?l))
      = Inr muts"
    by (simp add: set_row_Some)
  have ok: "0 \<le> ?s \<and> ?s < 2 ^ 32"
  proof (rule ccontr)
    assume "\<not> (0 \<le> ?s \<and> ?s < 2 ^ 32)"
    then have "pack_I ?s = Inl StructError" by (simp only: pack_I_def if_False)
    with packed show False by simp
  qed
  then obtain v where v: "pack_I ?s = Inr v" "length v = 4" "unpack_I v = ?s"
    using unpack_pack [of ?s] by blast
  with packed have muts: "muts = DeleteFromRow # SetCell column_family ttl_column v (Some (now + d)) # ?l"
    by simp
  from ok have "\<bar>?s\<bar> = ?s" by simp
  with int_total_seconds_trunc [of d] v(3)
  have trunc: "unpack_I v * 1000000 \<le> \<bar>d\<bar> \<and> \<bar>d\<bar> < (unpack_I v + 1) * 1000000"
    by (simp only:)
  have "mutation_timestamp m = Some (now + d)" if "m \<in> set (tl muts)" for m
  proof (cases "m \<in> set ?l")
    case True
    then show ?thesis by (rule set_loop_timestamp)
  next
    case False
    with that muts have "m = SetCell column_family ttl_column v (Some (now + d))" by simp
    then show ?thesis by simp
  qed
  with muts v(2) trunc show ?thesis by blast
qed

theorem set_ttl_cells_stamped_witness:
  "py_or (Some 60000000) (default_ttl example_storage) = Some 60000000
   \<and> set_row example_storage 1000000000 ''abcdefghijklmnopqrstuvwxy'' (Some 60000000) =
       Inr [DeleteFromRow,
            SetCell ''x'' ''t'' [CHR ''<'', CHR 0x00, CHR 0x00, CHR 0x00] (Some 1060000000),
            SetCell ''x'' ''0'' ''abcdefghij'' (Some 1060000000),
            SetCell ''x'' ''1'' ''klmnopqrst'' (Some 1060000000),
            SetCell ''x'' ''2'' ''uvwxy'' (Some 1060000000)]
   \<and> mutation_timestamp (SetCell ''x'' ''2'' ''uvwxy'' (Some 1060000000)) =
       Some (1000000000 + 60000000)
   \<and> unpack_I [CHR ''<'', CHR 0x00, CHR 0x00, CHR 0x00] = 60000000 div 1000000"
proof -
  have h1: "py_or (Some 60000000) (default_ttl example_storage) = Some 60000000"
    by (simp add: py_or_def)
  have h2: "set_row example_storage 1000000000 ''abcdefghijklmnopqrstuvwxy'' (Some 60000000) =
       Inr [DeleteFromRow,
            SetCell ''x'' ''t'' [CHR ''<'', CHR 0x00, CHR 0x00, CHR 0x00] (Some 1060000000),
            SetCell ''x'' ''0'' ''abcdefghij'' (Some 1060000000),
            SetCell ''x'' ''1'' ''klmnopqrst'' (Some 1060000000),
            SetCell ''x'' ''2'' ''uvwxy'' (Some 1060000000)]"
    by (simp add: set_row_Some [OF h1] datetime_end_def int_total_seconds_def pack_I_example
          columns_example example_storage_simps column_family_def ttl_column_def)
  from set_ttl_cells_stamped [OF h1 h2] h1 h2 show ?thesis by simp
qed

text \<open>
  Claim C7 states that \<^verbatim>\<open>set\<close> fails for every negative TTL. \<^verbatim>\<open>int\<close> truncates
  towards zero, so a TTL of minus half a second packs as zero seconds: \<^verbatim>\<open>set\<close> succeeds
  and stamps the cells half a second into the past.
\<close>

theorem set_negative_ttl_counterexample:
  "(- 500000 :: int) < 0
   \<and> py_or (Some (- 500000)) (default_ttl example_storage) = Some (- 500000)
   \<and> set_row example_storage 1000000000 ''ab'' (Some (- 500000)) =
       Inr [DeleteFromRow,
            SetCell ''x'' ''t'' [CHR 0x00, CHR 0x00, CHR 0x00, CHR 0x00] (Some 999500000),
            SetCell ''x'' ''0'' ''ab'' (Some 999500000)]"
proof -
  have h: "py_or (Some (- 500000)) (default_ttl example_storage) = Some (- 500000)"
    by (simp add: py_or_def)
  have "set_row example_storage 1000000000 ''ab'' (Some (- 500000)) =
       Inr [DeleteFromRow,
            SetCell ''x'' ''t'' [CHR 0x00, CHR 0x00, CHR 0x00, CHR 0x00] (Some 999500000),
            SetCell ''x'' ''0'' ''ab'' (Some 999500000)]"
    by (simp add: set_row_Some [OF h] datetime_end_def int_total_seconds_def pack_I_zero
          columns_example example_storage_simps column_family_def ttl_column_def)
  with h show ?thesis by simp
qed

text \<open>
  Claim C7, amended. \<^verbatim>\<open>set\<close> fails before the row mutation is sent exactly when a TTL
  resolves and either its whole seconds, truncated towards zero, are negative or beyond 32
  bits (a TTL of at most minus one second or of at least \<open>2^32\<close> seconds), or the
  timestamp \<open>now + ttl\<close> is no valid date. The exception is the one of
  \<^verbatim>\<open>struct.pack\<close> or of the date addition; the code has no error of its own.
\<close>

theorem set_invalid_ttl_fails:
  "((\<exists>e. set_node self now srv tbl key data ttl = Inl e) \<longleftrightarrow>
      (\<exists>d. py_or ttl (default_ttl self) = Some d \<and>
           (now + d < 0 \<or> datetime_end \<le> now + d \<or> d \<le> - 1000000 \<or> 4294967296000000 \<le> d)))
   \<and> (\<forall>e. set_node self now srv tbl key data ttl = Inl e \<longrightarrow>
          e = OverflowError \<or> e = StructError)"
proof (cases "py_or ttl (default_ttl self)")
  case None
  then show ?thesis by (simp add: set_node_def set_row_None)
next
  case (Some d)
  let ?s = "int_total_seconds d"
  show ?thesis
  proof (cases "0 \<le> now + d \<and> now + d < datetime_end")
    case False
    then have "set_row self now data ttl = Inl OverflowError"
      by (auto simp: set_row_Some [OF Some])
    then have "set_node self now srv tbl key data ttl = Inl OverflowError"
      by (simp add: set_node_def)
    with Some False show ?thesis by auto
  next
    case range: True
    show ?thesis
    proof (cases "0 \<le> ?s \<and> ?s < 2 ^ 32")
      case True
      then obtain v where "pack_I ?s = Inr v" using unpack_pack [of ?s] by blast
      with range have "\<exists>muts. set_row self now data ttl = Inr muts"
        by (auto simp: set_row_Some [OF Some])
      then have ok: "\<exists>t. set_node self now srv tbl key data ttl = Inr t"
        by (auto simp: set_node_def)
      from True have "- 1000000 < d \<and> d < 4294967296000000"
        using pack_I_ok_iff [of d] by blast
      with ok Some range show ?thesis by auto
    next
      case False
      then have "pack_I ?s = Inl StructError" by (simp only: pack_I_def if_False)
      with range have "set_row self now data ttl = Inl StructError"
        by (auto simp: set_row_Some [OF Some])
      then have bad: "set_node self now srv tbl key data ttl = Inl StructError"
        by (simp add: set_node_def)
      from False have "\<not> (- 1000000 < d \<and> d < 4294967296000000)"
        using pack_I_ok_iff [of d] by blast
      then have "d \<le> - 1000000 \<or> 4294967296000000 \<le> d" by auto
      with bad Some show ?thesis by auto
    qed
  qed
qed

theorem set_invalid_ttl_fails_witness:
  "py_or (Some (- 2000000)) (default_ttl example_storage) = Some (- 2000000)
   \<and> (\<exists>e. set_node example_storage 1000000000 0 (\<lambda>k. Map.empty) ''id'' ''ab'' (Some (- 2000000)) = Inl e)"
proof -
  have h: "py_or (Some (- 2000000)) (default_ttl example_storage) = Some (- 2000000)"
    by (simp add: py_or_def)
  with set_invalid_ttl_fails [of example_storage 1000000000 0 "\<lambda>k. Map.empty" "''id''" "''ab''" "Some (- 2000000)"]
  show ?thesis by simp
qed

section \<open>Expiry on read\<close>

lemma get_loop_no_ttl: "get_loop cols False now data cs \<noteq> Inr None"
  by (induction cs arbitrary: data) (auto split: option.splits list.splits)

lemma get_loop_None_iff:
  assumes "\<forall>c cs. cols c = Some cs \<longrightarrow> cs \<noteq> []"
  shows "get_loop cols has_ttl now data cs = Inr None \<longleftrightarrow>
           has_ttl \<and> (\<exists>c \<in> set (takeWhile (\<lambda>c. cols c \<noteq> None) cs).
                       \<exists>x xs. cols c = Some (x # xs) \<and> cell_timestamp x < now)"
  using assms
proof (induction cs arbitrary: data)
  case Nil
  show ?case by simp
next
  case (Cons column rest)
  show ?case
  proof (cases "cols column")
    case None
    then show ?thesis by simp
  next
    case (Some cs)
    with Cons.prems obtain x xs where cs: "cs = x # xs" by (cases cs) auto
    show ?thesis
    proof (cases "has_ttl \<and> cell_timestamp x < now")
      case True
      with Some cs show ?thesis by auto
    next
      case False
      with Some cs have "get_loop cols has_ttl now data (column # rest) =
                           get_loop cols has_ttl now (data @ [cell_value x]) rest"
        by auto
      with Cons.IH [OF Cons.prems, of "data @ [cell_value x]"] Some cs False
      show ?thesis by auto
    qed
  qed
qed

lemma columns_cases: "columns self = [] \<or> (\<exists>rest. columns self = ''0'' # rest)"
proof (cases "max_size self div bytes_per_column self")
  case 0
  then show ?thesis by (simp add: columns_def)
next
  case (Suc n)
  have "text_type 0 = ''0''" by (simp add: text_type.simps char_of_def bit_Suc_0_iff)
  with Suc show ?thesis by (simp add: columns_def upt_conv_Cons del: upt_Suc)
qed

lemma get_loop_first_missing:
  assumes "cols ''0'' = None"
  shows "get_loop cols has_ttl now [] (columns self) = Inr (Some [])"
  using columns_cases [of self] assms by auto

text \<open>
  Claim C9. For every fetched row that has the TTL cell and no cell in chunk column
  \<open>0\<close>, \<^verbatim>\<open>get\<close> never compares a timestamp: whatever the time, the result is what the
  decoder makes of the empty byte string, never the absent value of the expiry check.
\<close>

theorem get_ttl_without_chunks:
  assumes "cells column_family = Some cols"
    and "cols ttl_column = Some tcells"
    and "cols ''0'' = None"
  shows "get_cells self json_loads now (Some cells) =
           (case json_loads [] of Inl e \<Rightarrow> Inl e | Inr v \<Rightarrow> Inr (Some v))
         \<and> get_cells self json_loads now (Some cells) \<noteq> Inr None"
proof -
  have "get_cells self json_loads now (Some cells) =
          (case json_loads [] of Inl e \<Rightarrow> Inl e | Inr v \<Rightarrow> Inr (Some v))"
    using assms(1) assms(3)
      get_loop_first_missing [of cols "cols ttl_column \<noteq> None" now self]
    by (simp add: get_cells_def join_def)
  then show ?thesis by (simp split: sum.splits)
qed

theorem get_ttl_without_chunks_witness:
  "ttl_only_row column_family =
     Some [ttl_column \<mapsto> [\<lparr>cell_value = ''<'', cell_timestamp = 5\<rparr>]]
   \<and> get_cells BigtableNodeStorage Inr 1000000 (Some ttl_only_row) = Inr (Some [])"
proof -
  let ?cols = "[ttl_column \<mapsto> [\<lparr>cell_value = ''<'', cell_timestamp = 5\<rparr>]]"
  have h1: "ttl_only_row column_family = Some ?cols" by (simp add: ttl_only_row_def)
  have h2: "?cols ttl_column = Some [\<lparr>cell_value = ''<'', cell_timestamp = 5\<rparr>]" by simp
  have h3: "?cols ''0'' = None" by (simp add: ttl_column_def)
  from h1 h2 h3
    get_ttl_without_chunks [where cells = ttl_only_row and cols = ?cols
      and tcells = "[\<lparr>cell_value = ''<'', cell_timestamp = 5\<rparr>]"
      and self = BigtableNodeStorage and json_loads = Inr and now = 1000000]
  show ?thesis by simp
qed

text \<open>
  Claim C3 states that a fetched row is reported absent exactly when it has a TTL cell whose
  timestamp lies before the current time. The code never reads the timestamp of the TTL
  cell: it compares the timestamp of each chunk cell it collects. A row whose TTL cell is
  stamped 5 and whose only chunk is stamped 20 is not absent at time 10.
\<close>

theorem get_expiry_counterexample:
  "mismatched_row column_family =
     Some [ttl_column \<mapsto> [\<lparr>cell_value = ''<'', cell_timestamp = 5\<rparr>],
           ''0'' \<mapsto> [\<lparr>cell_value = ''ab'', cell_timestamp = 20\<rparr>]]
   \<and> (5 :: int) < 10
   \<and> get_cells BigtableNodeStorage Inr 10 (Some mismatched_row) = Inr (Some ''ab'')"
  by (simp add: mismatched_row_def get_cells_def columns_BigtableNodeStorage join_def
        ttl_column_def column_family_def)

text \<open>
  Claim C3, amended. For every fetched row (with the column family, and every column with
  at least one cell, as the client returns rows), \<^verbatim>\<open>get\<close> reports the row absent exactly
  when the TTL cell is present and one of the chunk cells it walks over (the newest cell of
  the chunk columns from index 0 up to the first missing one) has a timestamp strictly
  before the current time. In a row written by \<^verbatim>\<open>set\<close> all cells carry one timestamp, so
  with at least one chunk this is the timestamp of the TTL cell. Without a TTL cell the row
  is never absent. \<^verbatim>\<open>get\<close> only reads: it returns no changed table.
\<close>

theorem get_absent_iff:
  assumes "cells column_family = Some cols"
    and "\<forall>c cs. cols c = Some cs \<longrightarrow> cs \<noteq> []"
  shows "get_cells self json_loads now (Some cells) = Inr None \<longleftrightarrow>
           cols ttl_column \<noteq> None \<and>
           (\<exists>c \<in> set (takeWhile (\<lambda>c. cols c \<noteq> None) (columns self)).
              \<exists>x xs. cols c = Some (x # xs) \<and> cell_timestamp x < now)"
proof -
  let ?r = "get_loop cols (cols ttl_column \<noteq> None) now [] (columns self)"
  have "get_cells self json_loads now (Some cells) = Inr None \<longleftrightarrow> ?r = Inr None"
    using assms(1)
    by (cases ?r) (auto simp: get_cells_def Let_def split: option.splits sum.splits)
  with get_loop_None_iff [OF assms(2), of "cols ttl_column \<noteq> None" now "[]" "columns self"]
  show ?thesis by simp
qed

theorem get_absent_iff_witness:
  "mismatched_row column_family =
     Some [ttl_column \<mapsto> [\<lparr>cell_value = ''<'', cell_timestamp = 5\<rparr>],
           ''0'' \<mapsto> [\<lparr>cell_value = ''ab'', cell_timestamp = 20\<rparr>]]
   \<and> get_cells BigtableNodeStorage Inr 21 (Some mismatched_row) = Inr None"
proof -
  let ?cols = "[ttl_column \<mapsto> [\<lparr>cell_value = ''<'', cell_timestamp = 5\<rparr>],
               ''0'' \<mapsto> [\<lparr>cell_value = ''ab'', cell_timestamp = 20\<rparr>]]"
  have h1: "mismatched_row column_family = Some ?cols" by (simp add: mismatched_row_def)
  have h2: "\<forall>c cs. ?cols c = Some cs \<longrightarrow> cs \<noteq> []" by auto
  have "takeWhile (\<lambda>c. ?cols c \<noteq> None) (columns BigtableNodeStorage) = [''0'']"
    by (simp add: columns_BigtableNodeStorage ttl_column_def)
  with h1 h2
    get_absent_iff [where cells = mismatched_row and cols = ?cols
      and self = BigtableNodeStorage and json_loads = Inr and now = 21]
  show ?thesis by (simp add: ttl_column_def)
qed

section \<open>The row after \<^verbatim>\<open>set\<close>\<close>

lemma apply_mutations_Delete:
  "apply_mutations srv cells (DeleteFromRow # rest) = apply_mutations srv Map.empty rest"
  by (simp add: apply_mutations_def)

lemma apply_mutations_snoc:
  "apply_mutations srv cells (ms @ [m]) = apply_mutation srv (apply_mutations srv cells ms) m"
  by (simp add: apply_mutations_def)

lemma apply_writes:
  assumes "\<forall>m \<in> set ms. \<exists>c v ts. m = SetCell column_family c v ts"
  shows "(ms = [] \<longrightarrow> apply_mutations srv Map.empty ms = Map.empty)
       \<and> (ms \<noteq> [] \<longrightarrow>
            (\<exists>cols. apply_mutations srv Map.empty ms column_family = Some cols
               \<and> (\<forall>c. cols c \<noteq> None \<longleftrightarrow> (\<exists>m \<in> set ms. writes_column c m))))"
  using assms
proof (induction ms rule: rev_induct)
  case Nil
  show ?case by (simp add: apply_mutations_def)
next
  case (snoc m ms)
  let ?r = "apply_mutations srv Map.empty ms"
  from snoc.prems obtain c v ts where m: "m = SetCell column_family c v ts" by auto
  from snoc.prems have all: "\<forall>m \<in> set ms. \<exists>c v ts. m = SetCell column_family c v ts" by simp
  note IH = snoc.IH [OF all]
  show ?case
  proof (cases "ms = []")
    case True
    with IH have "?r = Map.empty" by simp
    with True m show ?thesis by (auto simp: apply_mutations_def Let_def)
  next
    case False
    with IH obtain cols where cols: "?r column_family = Some cols"
      "\<forall>c. cols c \<noteq> None \<longleftrightarrow> (\<exists>m \<in> set ms. writes_column c m)" by blast
    let ?new = "cols(c \<mapsto> insert_cell \<lparr>cell_value = v,
        cell_timestamp = (case ts of None \<Rightarrow> srv | Some t \<Rightarrow> t)\<rparr>
        (case cols c of None \<Rightarrow> [] | Some cs \<Rightarrow> cs))"
    have "apply_mutations srv Map.empty (ms @ [m]) column_family = Some ?new"
      using cols(1) m by (simp add: apply_mutations_snoc Let_def)
    moreover have "\<forall>c'. ?new c' \<noteq> None \<longleftrightarrow> (\<exists>m' \<in> set (ms @ [m]). writes_column c' m')"
      using cols(2) m by auto
    ultimately show ?thesis by blast
  qed
qed

lemma set_loop_SetCell:
  "\<forall>m \<in> set (set_loop bpc data ts idx cols). \<exists>c v ts'. m = SetCell column_family c v ts'"
  by (induction cols arbitrary: idx) (auto simp: Let_def)

lemma set_loop_columns:
  "(\<exists>m \<in> set (set_loop bpc data ts idx cols). writes_column c m) \<longleftrightarrow>
     c \<in> set (take (length (set_loop bpc data ts idx cols)) cols)"
  by (induction cols arbitrary: idx) (auto simp: Let_def)

lemma split_length_set_loop:
  "length (set_loop (bytes_per_column self) data ts 0 (columns self)) = length (split self data)"
  using arg_cong [OF set_loop_values_ts [of "bytes_per_column self" data ts 0 "columns self" None],
    of length]
  by (simp add: split_def)

lemma set_row_Some_Inr:
  assumes "py_or ttl (default_ttl self) = Some d"
    and "set_row self now data ttl = Inr muts"
  shows "\<exists>v. muts = DeleteFromRow # SetCell column_family ttl_column v (Some (now + d)) #
                  set_loop (bytes_per_column self) data (Some (now + d)) 0 (columns self)"
proof (cases "pack_I (int_total_seconds d)")
  case (Inl e)
  with assms show ?thesis by (simp add: set_row_Some split: if_splits)
next
  case (Inr v)
  with assms show ?thesis by (auto simp: set_row_Some split: if_splits)
qed

lemma set_row_shape:
  assumes "set_row self now data ttl = Inr muts"
  shows "\<exists>rest. muts = DeleteFromRow # rest
           \<and> (\<forall>m \<in> set rest. \<exists>c v ts. m = SetCell column_family c v ts)
           \<and> (\<forall>c. (\<exists>m \<in> set rest. writes_column c m) \<longleftrightarrow>
                  (c = ttl_column \<and> py_or ttl (default_ttl self) \<noteq> None)
                  \<or> c \<in> set (take (length (split self data)) (columns self)))"
proof (cases "py_or ttl (default_ttl self)")
  case None
  let ?l = "set_loop (bytes_per_column self) data None 0 (columns self)"
  from None assms have "muts = DeleteFromRow # ?l" by (simp add: set_row_None)
  moreover have "\<forall>m \<in> set ?l. \<exists>c v ts. m = SetCell column_family c v ts"
    by (rule set_loop_SetCell)
  moreover have "\<forall>c. (\<exists>m \<in> set ?l. writes_column c m) \<longleftrightarrow>
                  (c = ttl_column \<and> py_or ttl (default_ttl self) \<noteq> None)
                  \<or> c \<in> set (take (length (split self data)) (columns self))"
    using None by (simp add: set_loop_columns split_length_set_loop)
  ultimately show ?thesis by blast
next
  case (Some d)
  let ?l = "set_loop (bytes_per_column self) data (Some (now + d)) 0 (columns self)"
  from set_row_Some_Inr [OF Some assms] obtain v
    where "muts = DeleteFromRow # SetCell column_family ttl_column v (Some (now + d)) # ?l"
    by blast
  moreover have "\<forall>m \<in> set (SetCell column_family ttl_column v (Some (now + d)) # ?l).
                   \<exists>c v ts. m = SetCell column_family c v ts"
    using set_loop_SetCell [of "bytes_per_column self" data "Some (now + d)" 0 "columns self"]
    by simp
  moreover have "\<forall>c. (\<exists>m \<in> set (SetCell column_family ttl_column v (Some (now + d)) # ?l).
                        writes_column c m) \<longleftrightarrow>
                  (c = ttl_column \<and> py_or ttl (default_ttl self) \<noteq> None)
                  \<or> c \<in> set (take (length (split self data)) (columns self))"
    using Some by (auto simp: set_loop_columns split_length_set_loop)
  ultimately show ?thesis by blast
qed

text \<open>
  The mutation that \<^verbatim>\<open>set\<close> builds: the row delete, the TTL cell if a TTL resolved, and
  one cell for each chunk of \<open>split\<close>.
\<close>

lemma set_row_chunks:
  assumes "set_row self now data ttl = Inr muts"
  shows "\<exists>pre ts. muts = DeleteFromRow # pre @
                     set_loop (bytes_per_column self) data ts 0 (columns self)
           \<and> (pre = [] \<or> (\<exists>v. pre = [SetCell column_family ttl_column v ts]))
           \<and> map mutation_value (set_loop (bytes_per_column self) data ts 0 (columns self)) =
               split self data"
proof (cases "py_or ttl (default_ttl self)")
  case None
  with assms have "muts = DeleteFromRow # [] @
      set_loop (bytes_per_column self) data None 0 (columns self)"
    by (simp add: set_row_None)
  then show ?thesis unfolding split_def by blast
next
  case (Some d)
  from set_row_Some_Inr [OF Some assms] obtain v where
    "muts = DeleteFromRow # [SetCell column_family ttl_column v (Some (now + d))] @
       set_loop (bytes_per_column self) data (Some (now + d)) 0 (columns self)"
    by auto
  moreover have "map mutation_value
      (set_loop (bytes_per_column self) data (Some (now + d)) 0 (columns self)) = split self data"
    unfolding split_def by (rule set_loop_values_ts)
  ultimately show ?thesis by blast
qed

lemma large_table_written:
  "set_node example_storage 0 3 (\<lambda>k. Map.empty) ''id'' ''abcdefghijklmnopqrstuvwxy'' None =
     Inr large_table"
  by (simp add: set_node_def set_row_def py_or_def example_storage_simps columns_example
        mutate_rows_def apply_mutations_def large_table_def column_family_def)

text \<open>
  The example of the specification, evaluated: a blob of 25 bytes is set at time 1000 s with
  a TTL of 60 s into an empty table; read at 1100 s the row is absent, read at 1030 s it is
  the blob, and a row never written is absent.
\<close>

lemma spec_example_set:
  "set_node example_storage 1000000000 1000000000 (\<lambda>k. Map.empty) ''id''
     ''abcdefghijklmnopqrstuvwxy'' (Some 60000000) = Inr expiring_table"
proof -
  have or: "py_or (Some 60000000) (default_ttl example_storage) = Some 60000000"
    by (simp add: py_or_def)
  show ?thesis
    by (simp add: set_node_def set_row_Some [OF or] datetime_end_def int_total_seconds_def
          pack_I_example columns_example example_storage_simps mutate_rows_def
          apply_mutations_def column_family_def ttl_column_def expiring_table_def)
qed

lemma spec_example_get:
  "get example_storage Inr 1100000000 expiring_table ''id'' = Inr None"
  "get example_storage Inr 1030000000 expiring_table ''id'' =
     Inr (Some ''abcdefghijklmnopqrstuvwxy'')"
  "get example_storage Inr 1030000000 expiring_table ''other'' = Inr None"
  by (simp_all add: expiring_table_def get_def read_row_def get_cells_def columns_example
        join_def column_family_def ttl_column_def)

text \<open>
  Claim C5. Every \<^verbatim>\<open>set\<close> that reaches the store is a full-row replace: its one row
  mutation starts with the delete of the whole row and contains no other delete, so the row
  afterwards is what the writes alone produce on an empty row, whatever the row held before;
  other rows are untouched. The row after \<^verbatim>\<open>set\<close>, and with it the result of a following
  \<^verbatim>\<open>get\<close>, is the same for every earlier table, and a column has a cell exactly when this
  \<^verbatim>\<open>set\<close> wrote it: the TTL column if a TTL resolved, and the chunk columns of the new
  blob. No chunk column of an earlier, larger blob remains.
\<close>

theorem set_replaces_row:
  assumes "set_node self now srv tbl key data ttl = Inr tbl'"
  shows "\<exists>rest. set_row self now data ttl = Inr (DeleteFromRow # rest)
           \<and> DeleteFromRow \<notin> set rest
           \<and> tbl' key = apply_mutations srv Map.empty rest
           \<and> (\<forall>k. k \<noteq> key \<longrightarrow> tbl' k = tbl k)
           \<and> (\<forall>tbl2. \<exists>tbl2'. set_node self now srv tbl2 key data ttl = Inr tbl2'
                  \<and> tbl2' key = tbl' key
                  \<and> get self json_loads now' tbl2' key = get self json_loads now' tbl' key)
           \<and> (\<forall>c. (\<exists>cols. tbl' key column_family = Some cols \<and> cols c \<noteq> None) \<longleftrightarrow>
                  (c = ttl_column \<and> py_or ttl (default_ttl self) \<noteq> None)
                  \<or> c \<in> set (take (length (split self data)) (columns self)))"
proof -
  from assms obtain muts where muts: "set_row self now data ttl = Inr muts"
    and tbl': "tbl' = mutate_rows srv tbl key muts"
    by (auto simp: set_node_def split: sum.splits)
  from set_row_shape [OF muts] obtain rest where rest: "muts = DeleteFromRow # rest"
    and cells: "\<forall>m \<in> set rest. \<exists>c v ts. m = SetCell column_family c v ts"
    and cols: "\<forall>c. (\<exists>m \<in> set rest. writes_column c m) \<longleftrightarrow>
                  (c = ttl_column \<and> py_or ttl (default_ttl self) \<noteq> None)
                  \<or> c \<in> set (take (length (split self data)) (columns self))"
    by blast
  let ?row = "apply_mutations srv Map.empty rest"
  have row: "mutate_rows srv t key muts key = ?row" for t
    by (simp add: mutate_rows_def rest apply_mutations_Delete)
  have nodel: "DeleteFromRow \<notin> set rest" using cells by auto
  have other: "\<forall>k. k \<noteq> key \<longrightarrow> tbl' k = tbl k" by (simp add: tbl' mutate_rows_def)
  have again: "\<exists>tbl2'. set_node self now srv tbl2 key data ttl = Inr tbl2'
                  \<and> tbl2' key = tbl' key
                  \<and> get self json_loads now' tbl2' key = get self json_loads now' tbl' key"
    for tbl2
  proof -
    have "set_node self now srv tbl2 key data ttl = Inr (mutate_rows srv tbl2 key muts)"
      by (simp add: set_node_def muts)
    moreover have "mutate_rows srv tbl2 key muts key = tbl' key" by (simp only: tbl' row)
    moreover from this
    have "get self json_loads now' (mutate_rows srv tbl2 key muts) key =
            get self json_loads now' tbl' key"
      by (simp only: get_def read_row_def)
    ultimately show ?thesis by blast
  qed
  have written: "(\<exists>cs. ?row column_family = Some cs \<and> cs c \<noteq> None) \<longleftrightarrow>
                   (\<exists>m \<in> set rest. writes_column c m)" for c
  proof (cases "rest = []")
    case True
    with apply_writes [OF cells, of srv] show ?thesis by simp
  next
    case False
    with apply_writes [OF cells, of srv] obtain cs where "?row column_family = Some cs"
      "\<forall>c. cs c \<noteq> None \<longleftrightarrow> (\<exists>m \<in> set rest. writes_column c m)" by blast
    then show ?thesis by simp
  qed
  have "tbl' key = ?row" by (simp only: tbl' row)
  with muts rest nodel other again written cols show ?thesis by (simp only:) blast
qed

theorem set_replaces_row_witness:
  "set_node example_storage 0 7 large_table ''id'' ''hello'' None =
     Inr (large_table(''id'' :=
            [column_family \<mapsto> [''0'' \<mapsto> [\<lparr>cell_value = ''hello'', cell_timestamp = 7\<rparr>]]]))
   \<and> get example_storage Inr 100
         (large_table(''id'' :=
            [column_family \<mapsto> [''0'' \<mapsto> [\<lparr>cell_value = ''hello'', cell_timestamp = 7\<rparr>]]]))
         ''id'' = Inr (Some ''hello'')
   \<and> (\<exists>rest. set_row example_storage 0 ''hello'' None = Inr (DeleteFromRow # rest))"
proof -
  let ?t = "large_table(''id'' :=
            [column_family \<mapsto> [''0'' \<mapsto> [\<lparr>cell_value = ''hello'', cell_timestamp = 7\<rparr>]]])"
  have h: "set_node example_storage 0 7 large_table ''id'' ''hello'' None = Inr ?t"
    by (simp add: set_node_def set_row_def py_or_def example_storage_simps columns_example
          mutate_rows_def apply_mutations_def column_family_def)
  have g: "get example_storage Inr 100 ?t ''id'' = Inr (Some ''hello'')"
    by (simp add: get_def read_row_def get_cells_def columns_example join_def
          column_family_def ttl_column_def)
  from set_replaces_row [OF h] have "\<exists>rest. set_row example_storage 0 ''hello'' None = Inr (DeleteFromRow # rest)"
    by blast
  with h g show ?thesis by blast
qed

text \<open>
  Claim C6. Where neither a TTL is requested nor a default TTL is configured, \<^verbatim>\<open>set\<close>
  succeeds with a mutation that never writes the TTL column and leaves every timestamp to
  the store, and a following \<^verbatim>\<open>get\<close> of that row, at any time, is absent only if no
  chunk was written at all (an empty blob leaves no row): never by expiry.
\<close>

theorem set_without_ttl_never_expires:
  assumes "default_ttl self = None"
  shows "\<exists>muts. set_row self now data None = Inr muts
           \<and> (\<forall>m \<in> set muts. \<not> writes_column ttl_column m \<and> mutation_timestamp m = None)
           \<and> set_node self now srv tbl key data None = Inr (mutate_rows srv tbl key muts)
           \<and> (\<forall>now'. get self json_loads now' (mutate_rows srv tbl key muts) key = Inr None
                    \<longleftrightarrow> split self data = [])"
proof -
  let ?l = "set_loop (bytes_per_column self) data None 0 (columns self)"
  let ?muts = "DeleteFromRow # ?l"
  let ?row = "apply_mutations srv Map.empty ?l"
  from assms have or: "py_or None (default_ttl self) = None" by (simp add: py_or_def)
  then have muts: "set_row self now data None = Inr ?muts" by (rule set_row_None)
  then have node: "set_node self now srv tbl key data None = Inr (mutate_rows srv tbl key ?muts)"
    by (simp add: set_node_def)
  have nottl: "\<not> writes_column ttl_column m" if "m \<in> set ?l" for m
    using set_loop_writes_only [OF that] ttl_column_not_chunk [of self] by blast
  have plain: "\<forall>m \<in> set ?muts. \<not> writes_column ttl_column m \<and> mutation_timestamp m = None"
    using nottl set_loop_timestamp [of _ "bytes_per_column self" data None 0 "columns self"]
    by auto
  have row: "mutate_rows srv tbl key ?muts key = ?row"
    by (simp add: mutate_rows_def apply_mutations_Delete)
  have len: "length ?l = length (split self data)" by (rule split_length_set_loop)
  have "get self json_loads now' (mutate_rows srv tbl key ?muts) key = Inr None
          \<longleftrightarrow> split self data = []" for now'
  proof (cases "?l = []")
    case True
    then have "?row = Map.empty" by (simp add: apply_mutations_def)
    with row have "get self json_loads now' (mutate_rows srv tbl key ?muts) key = Inr None"
      by (simp add: get_def read_row_def get_cells_def)
    moreover from True len have "split self data = []" by simp
    ultimately show ?thesis by simp
  next
    case False
    with apply_writes [OF set_loop_SetCell, of "bytes_per_column self" data None 0 "columns self" srv]
    obtain cols where cols: "?row column_family = Some cols"
      "\<forall>c. cols c \<noteq> None \<longleftrightarrow> (\<exists>m \<in> set ?l. writes_column c m)" by blast
    from cols(2) nottl have "cols ttl_column = None" by blast
    moreover from cols(1) have "?row \<noteq> Map.empty" by auto
    ultimately have "get self json_loads now' (mutate_rows srv tbl key ?muts) key \<noteq> Inr None"
      using cols(1) row get_loop_no_ttl [of cols now' "[]" "columns self"]
      by (auto simp: get_def read_row_def get_cells_def split: sum.splits option.splits)
    moreover from False len have "split self data \<noteq> []" by auto
    ultimately show ?thesis by simp
  qed
  with muts plain node show ?thesis by blast
qed

theorem set_without_ttl_never_expires_witness:
  "default_ttl example_storage = None
   \<and> set_row example_storage 0 ''hello'' None = Inr [DeleteFromRow, SetCell ''x'' ''0'' ''hello'' None]
   \<and> get example_storage Inr 9999999999
         (mutate_rows 7 large_table ''id'' [DeleteFromRow, SetCell ''x'' ''0'' ''hello'' None]) ''id''
       \<noteq> Inr None"
proof -
  have h: "default_ttl example_storage = None" by (simp add: example_storage_simps)
  have r: "set_row example_storage 0 ''hello'' None =
             Inr [DeleteFromRow, SetCell ''x'' ''0'' ''hello'' None]"
    by (simp add: set_row_def py_or_def example_storage_simps columns_example column_family_def)
  have s: "split example_storage ''hello'' \<noteq> []"
    by (simp add: split_def example_storage_simps columns_example)
  from set_without_ttl_never_expires [OF h, of 0 "''hello''" 7 large_table "''id''" Inr] r s h
  show ?thesis by auto
qed

section \<open>Reading back what \<^verbatim>\<open>set\<close> wrote\<close>

text \<open>
  The column names are the decimal numerals, so they are pairwise different, and none is
  the TTL column. Hence the row that \<^verbatim>\<open>set\<close> leaves holds chunk \<open>i\<close> in column \<open>i\<close>,
  and \<^verbatim>\<open>get\<close> walks over exactly the chunks written.
\<close>

lemma text_type_decode:
  "foldl (\<lambda>a c. 10 * a + (of_char c - 48)) 0 (text_type n) = n"
proof (induction n rule: text_type.induct)
  case (1 n)
  show ?case
  proof (cases "n < 10")
    case True
    then have "(48 + n) mod 256 = 48 + n" by simp
    with True show ?thesis by (subst text_type.simps) simp
  next
    case False
    have "n mod 10 < 10" by simp
    then have "(48 + n mod 10) mod 256 = 48 + n mod 10" by simp
    with False "1.IH" show ?thesis by (subst text_type.simps) simp
  qed
qed

lemma text_type_inj:
  assumes "text_type a = text_type b"
  shows "a = b"
proof -
  have "a = foldl (\<lambda>a c. 10 * a + (of_char c - 48)) 0 (text_type a)"
    by (simp only: text_type_decode)
  also have "\<dots> = foldl (\<lambda>a c. 10 * a + (of_char c - 48)) 0 (text_type b)"
    by (simp only: assms)
  also have "\<dots> = b" by (simp only: text_type_decode)
  finally show ?thesis .
qed

lemma distinct_columns: "distinct (columns self)"
  by (auto simp: columns_def distinct_map intro!: inj_onI dest: text_type_inj)

lemma apply_mutations_Cons:
  "apply_mutations srv r (m # ms) = apply_mutations srv (apply_mutation srv r m) ms"
  by (simp add: apply_mutations_def)

lemma apply_set_loop:
  assumes "distinct cols"
    and "(case r column_family of None \<Rightarrow> Map.empty | Some m \<Rightarrow> m) = base"
    and "\<forall>c \<in> set cols. base c = None"
    and "set_loop bpc data ts idx cols \<noteq> []"
  shows "\<exists>C. apply_mutations srv r (set_loop bpc data ts idx cols) column_family = Some C
           \<and> (\<forall>i < length (set_loop bpc data ts idx cols).
                 C (cols ! i) =
                   Some [\<lparr>cell_value = take bpc (drop ((idx + i) * bpc) data),
                          cell_timestamp = (case ts of None \<Rightarrow> srv | Some t \<Rightarrow> t)\<rparr>])
           \<and> (\<forall>c. c \<notin> set (take (length (set_loop bpc data ts idx cols)) cols) \<longrightarrow>
                 C c = base c)"
  using assms
proof (induction cols arbitrary: idx r base)
  case Nil
  then show ?case by simp
next
  case (Cons column rest)
  let ?chunk = "take bpc (drop (idx * bpc) data)"
  let ?new = "\<lparr>cell_value = ?chunk, cell_timestamp = (case ts of None \<Rightarrow> srv | Some t \<Rightarrow> t)\<rparr>"
  let ?l = "set_loop bpc data ts (idx + 1) rest"
  let ?r = "r(column_family \<mapsto> base(column \<mapsto> [?new]))"
  from Cons.prems(4) have chunk: "?chunk \<noteq> []" by (auto simp: Let_def split: if_splits)
  then have loop: "set_loop bpc data ts idx (column # rest) =
                     SetCell column_family column ?chunk ts # ?l"
    by (simp add: Let_def)
  from Cons.prems(3) have c0: "base column = None" by simp
  with Cons.prems(2) have step: "apply_mutation srv r (SetCell column_family column ?chunk ts) = ?r"
    by (auto simp: Let_def)
  have d: "distinct rest" and notin: "column \<notin> set rest" using Cons.prems(1) by simp_all
  have r': "(case ?r column_family of None \<Rightarrow> Map.empty | Some m \<Rightarrow> m) = base(column \<mapsto> [?new])"
    by simp
  have free: "\<forall>c \<in> set rest. (base(column \<mapsto> [?new])) c = None"
    using Cons.prems(3) notin by auto
  have "\<exists>C. apply_mutations srv ?r ?l column_family = Some C
           \<and> (\<forall>i < length ?l. C (rest ! i) =
                 Some [\<lparr>cell_value = take bpc (drop ((idx + 1 + i) * bpc) data),
                        cell_timestamp = (case ts of None \<Rightarrow> srv | Some t \<Rightarrow> t)\<rparr>])
           \<and> (\<forall>c. c \<notin> set (take (length ?l) rest) \<longrightarrow> C c = (base(column \<mapsto> [?new])) c)"
  proof (cases "?l = []")
    case True
    then show ?thesis by (simp add: apply_mutations_def)
  next
    case False
    from Cons.IH [where r = ?r and base = "base(column \<mapsto> [?new])" and idx = "idx + 1",
        OF d r' free False]
    show ?thesis .
  qed
  then obtain C where
    C: "apply_mutations srv ?r ?l column_family = Some C"
    and Ci: "\<forall>i < length ?l. C (rest ! i) =
               Some [\<lparr>cell_value = take bpc (drop ((idx + 1 + i) * bpc) data),
                      cell_timestamp = (case ts of None \<Rightarrow> srv | Some t \<Rightarrow> t)\<rparr>]"
    and Co: "\<forall>c. c \<notin> set (take (length ?l) rest) \<longrightarrow> C c = (base(column \<mapsto> [?new])) c"
    by blast
  have res: "apply_mutations srv r (set_loop bpc data ts idx (column # rest)) column_family = Some C"
    by (simp only: loop apply_mutations_Cons step C)
  have "column \<notin> set (take (length ?l) rest)" using notin by (auto dest: in_set_takeD)
  with Co have C0: "C column = Some [?new]" by simp
  have nth: "C ((column # rest) ! i) =
               Some [\<lparr>cell_value = take bpc (drop ((idx + i) * bpc) data),
                      cell_timestamp = (case ts of None \<Rightarrow> srv | Some t \<Rightarrow> t)\<rparr>]"
    if "i < length (set_loop bpc data ts idx (column # rest))" for i
  proof (cases i)
    case 0
    with C0 show ?thesis by simp
  next
    case (Suc j)
    with that loop have "j < length ?l" by simp
    with Ci Suc show ?thesis by simp
  qed
  have out: "C c = base c"
    if "c \<notin> set (take (length (set_loop bpc data ts idx (column # rest))) (column # rest))" for c
  proof -
    from that loop have "c \<noteq> column" and "c \<notin> set (take (length ?l) rest)" by simp_all
    with Co show ?thesis by simp
  qed
  from res nth out show ?case by blast
qed

lemma get_loop_walk:
  assumes "\<forall>c \<in> set pre. \<exists>x. C c = Some [x] \<and> \<not> (has_ttl \<and> cell_timestamp x < now)"
    and "post = [] \<or> C (hd post) = None"
  shows "get_loop C has_ttl now acc (pre @ post) =
           Inr (Some (acc @ map (\<lambda>c. cell_value (hd (the (C c)))) pre))"
  using assms
proof (induction pre arbitrary: acc)
  case Nil
  then show ?case by (cases post) auto
next
  case (Cons c pre)
  from Cons.prems(1) obtain x where x: "C c = Some [x]"
    "\<not> (has_ttl \<and> cell_timestamp x < now)" by auto
  from Cons.prems(1) have "\<forall>c \<in> set pre. \<exists>x. C c = Some [x] \<and> \<not> (has_ttl \<and> cell_timestamp x < now)"
    by simp
  from Cons.IH [OF this Cons.prems(2), of "acc @ [cell_value x]"] x
  show ?case by auto
qed

lemma set_loop_length_le: "length (set_loop bpc data ts idx cols) \<le> length cols"
  by (induction cols arbitrary: idx) (simp_all add: Let_def)

lemma get_loop_written:
  assumes "n \<le> length cols" and "0 < n" and "length vals = n"
    and "\<forall>i < n. C (cols ! i) = Some [\<lparr>cell_value = vals ! i, cell_timestamp = stamp\<rparr>]"
    and "n < length cols \<longrightarrow> C (cols ! n) = None"
  shows "get_loop C has_ttl now [] cols =
           (if has_ttl \<and> stamp < now then Inr None else Inr (Some vals))"
proof (cases "has_ttl \<and> stamp < now")
  case True
  from assms(1,2) obtain c rest where cols: "cols = c # rest" by (cases cols) auto
  with assms(2,4) have "C c = Some [\<lparr>cell_value = vals ! 0, cell_timestamp = stamp\<rparr>]"
    by auto
  with True cols show ?thesis by simp
next
  case False
  let ?pre = "take n cols" and ?post = "drop n cols"
  have len: "length ?pre = n" using assms(1) by simp
  have pre: "\<forall>c \<in> set ?pre. \<exists>x. C c = Some [x] \<and> \<not> (has_ttl \<and> cell_timestamp x < now)"
  proof
    fix c assume "c \<in> set ?pre"
    then obtain i where i: "i < n" "c = cols ! i"
      using len by (auto simp: in_set_conv_nth)
    with assms(4) have "C c = Some [\<lparr>cell_value = vals ! i, cell_timestamp = stamp\<rparr>]" by simp
    with False show "\<exists>x. C c = Some [x] \<and> \<not> (has_ttl \<and> cell_timestamp x < now)" by auto
  qed
  have post: "?post = [] \<or> C (hd ?post) = None"
  proof (cases "n < length cols")
    case True
    then have "hd ?post = cols ! n" by (simp add: hd_drop_conv_nth)
    with True assms(5) show ?thesis by simp
  next
    case False
    then show ?thesis by simp
  qed
  have vals: "map (\<lambda>c. cell_value (hd (the (C c)))) ?pre = vals"
  proof (rule nth_equalityI)
    show "length (map (\<lambda>c. cell_value (hd (the (C c)))) ?pre) = length vals"
      using len assms(3) by simp
  next
    fix i assume "i < length (map (\<lambda>c. cell_value (hd (the (C c)))) ?pre)"
    then have i: "i < n" using len by simp
    with assms(4) have "C (cols ! i) = Some [\<lparr>cell_value = vals ! i, cell_timestamp = stamp\<rparr>]"
      by simp
    with i len show "map (\<lambda>c. cell_value (hd (the (C c)))) ?pre ! i = vals ! i" by simp
  qed
  have "get_loop C has_ttl now [] (?pre @ ?post) =
          Inr (Some ([] @ map (\<lambda>c. cell_value (hd (the (C c)))) ?pre))"
    using pre post by (rule get_loop_walk)
  with vals False show ?thesis by simp
qed

lemma get_cells_written:
  assumes "(case r column_family of None \<Rightarrow> Map.empty | Some m \<Rightarrow> m) = base"
    and "\<forall>c \<in> set (columns self). base c = None"
    and "split self data \<noteq> []"
  shows "get_cells self json_loads now'
           (Some (apply_mutations srv r
                    (set_loop (bytes_per_column self) data ts 0 (columns self)))) =
           (if base ttl_column \<noteq> None \<and> (case ts of None \<Rightarrow> srv | Some t \<Rightarrow> t) < now'
            then Inr None
            else case json_loads (take (bytes_per_column self * length (columns self)) data) of
                   Inl e \<Rightarrow> Inl e
                 | Inr v \<Rightarrow> Inr (Some v))"
proof -
  let ?bpc = "bytes_per_column self" and ?cols = "columns self"
  let ?l = "set_loop ?bpc data ts 0 ?cols"
  let ?n = "length ?l"
  let ?stamp = "case ts of None \<Rightarrow> srv | Some t \<Rightarrow> t"
  have n: "?n = length (split self data)" by (rule split_length_set_loop)
  with assms(3) have ne: "?l \<noteq> []" and pos: "0 < ?n" by auto
  from apply_set_loop [where cols = ?cols and r = r and base = base and bpc = ?bpc
      and data = data and ts = ts and idx = 0 and srv = srv,
      OF distinct_columns assms(1,2) ne]
  obtain C
    where C: "apply_mutations srv r ?l column_family = Some C"
      and Ci: "\<forall>i < ?n. C (?cols ! i) =
                 Some [\<lparr>cell_value = take ?bpc (drop ((0 + i) * ?bpc) data),
                        cell_timestamp = ?stamp\<rparr>]"
      and Co: "\<forall>c. c \<notin> set (take ?n ?cols) \<longrightarrow> C c = base c"
    by blast
  have le: "?n \<le> length ?cols" by (rule set_loop_length_le)
  have "ttl_column \<notin> set (take ?n ?cols)"
    using ttl_column_not_chunk [of self] by (auto dest: in_set_takeD)
  with Co have ttl: "C ttl_column = base ttl_column" by simp
  have cells: "\<forall>i < ?n. C (?cols ! i) =
                 Some [\<lparr>cell_value = split self data ! i, cell_timestamp = ?stamp\<rparr>]"
    using Ci n by (simp add: split_nth)
  have stop: "?n < length ?cols \<longrightarrow> C (?cols ! ?n) = None"
  proof
    assume lt: "?n < length ?cols"
    have "?cols ! ?n \<notin> set (take ?n ?cols)"
    proof
      assume "?cols ! ?n \<in> set (take ?n ?cols)"
      then obtain i where "i < ?n" "?cols ! i = ?cols ! ?n"
        using le by (auto simp: in_set_conv_nth)
      with lt distinct_columns [of self] show False
        by (auto simp: nth_eq_iff_index_eq)
    qed
    with Co have "C (?cols ! ?n) = base (?cols ! ?n)" by simp
    with assms(2) lt show "C (?cols ! ?n) = None" by simp
  qed
  have loop: "get_loop C (C ttl_column \<noteq> None) now' [] ?cols =
          (if C ttl_column \<noteq> None \<and> ?stamp < now' then Inr None
           else Inr (Some (split self data)))"
    using le pos n [symmetric] cells stop by (rule get_loop_written)
  show ?thesis
    using C ttl loop join_split [of self data]
    by (simp add: get_cells_def Let_def)
qed

text \<open>
  \<^verbatim>\<open>set\<close> followed by \<^verbatim>\<open>get\<close> on the same row, for a blob that has at least one
  chunk: if a TTL resolved and the time of the read is past \<open>now + ttl\<close> the row is
  absent, and otherwise the decoder receives the blob (its first
  \<open>chunkSize * maxChunks\<close> bytes), whatever the table held before.
\<close>

lemma get_after_set:
  assumes "set_node self now srv tbl key data ttl = Inr tbl'"
    and "split self data \<noteq> []"
  shows "get self json_loads now' tbl' key =
           (if \<exists>d. py_or ttl (default_ttl self) = Some d \<and> now + d < now' then Inr None
            else case json_loads (take (bytes_per_column self * length (columns self)) data) of
                   Inl e \<Rightarrow> Inl e
                 | Inr v \<Rightarrow> Inr (Some v))"
proof -
  let ?bpc = "bytes_per_column self" and ?cols = "columns self"
  from assms(1) obtain muts where muts: "set_row self now data ttl = Inr muts"
    and tbl': "tbl' = mutate_rows srv tbl key muts"
    by (auto simp: set_node_def split: sum.splits)
  have family: "read_row tbl' key = Some (tbl' key)" if "tbl' key column_family = Some C" for C
    using that by (auto simp: read_row_def)
  show ?thesis
  proof (cases "py_or ttl (default_ttl self)")
    case None
    let ?l = "set_loop ?bpc data None 0 ?cols"
    from None muts have "muts = DeleteFromRow # ?l" by (simp add: set_row_None)
    then have row: "tbl' key = apply_mutations srv Map.empty ?l"
      by (simp add: tbl' mutate_rows_def apply_mutations_Delete)
    have g: "get_cells self json_loads now' (Some (apply_mutations srv Map.empty ?l)) =
               (case json_loads (take (?bpc * length ?cols) data) of
                  Inl e \<Rightarrow> Inl e | Inr v \<Rightarrow> Inr (Some v))"
      using get_cells_written [where r = Map.empty and base = Map.empty and self = self
          and data = data and ts = None and srv = srv and now' = now'
          and json_loads = json_loads] assms(2)
      by simp
    have "apply_mutations srv Map.empty ?l \<noteq> Map.empty"
    proof -
      have "?l \<noteq> []" using assms(2) split_length_set_loop [of self data None] by auto
      from apply_set_loop [where cols = ?cols and r = Map.empty and base = Map.empty
          and bpc = ?bpc and data = data and ts = None and idx = 0 and srv = srv,
          OF distinct_columns _ _ this]
      show ?thesis by auto
    qed
    with row have "read_row tbl' key = Some (apply_mutations srv Map.empty ?l)"
      by (simp add: read_row_def)
    with g None show ?thesis by (simp add: get_def)
  next
    case (Some d)
    let ?l = "set_loop ?bpc data (Some (now + d)) 0 ?cols"
    from set_row_Some_Inr [OF Some muts] obtain v
      where "muts = DeleteFromRow # SetCell column_family ttl_column v (Some (now + d)) # ?l"
      by blast
    let ?base = "[ttl_column \<mapsto> [\<lparr>cell_value = v, cell_timestamp = now + d\<rparr>]]"
    let ?r = "[column_family \<mapsto> ?base]"
    have row: "tbl' key = apply_mutations srv ?r ?l"
      using \<open>muts = _\<close>
      by (simp add: tbl' mutate_rows_def apply_mutations_Delete apply_mutations_Cons)
    have free: "\<forall>c \<in> set ?cols. ?base c = None"
      using ttl_column_not_chunk [of self] by auto
    have g: "get_cells self json_loads now' (Some (apply_mutations srv ?r ?l)) =
               (if now + d < now' then Inr None
                else case json_loads (take (?bpc * length ?cols) data) of
                       Inl e \<Rightarrow> Inl e | Inr v \<Rightarrow> Inr (Some v))"
      using get_cells_written [where r = ?r and base = ?base and self = self
          and data = data and ts = "Some (now + d)" and srv = srv and now' = now'
          and json_loads = json_loads] free assms(2)
      by simp
    have "apply_mutations srv ?r ?l \<noteq> Map.empty"
    proof -
      have "?l \<noteq> []" using assms(2) split_length_set_loop [of self data "Some (now + d)"] by auto
      from apply_set_loop [where cols = ?cols and r = ?r and base = ?base and bpc = ?bpc
          and data = data and ts = "Some (now + d)" and idx = 0 and srv = srv,
          OF distinct_columns _ free this]
      show ?thesis by auto
    qed
    with row have "read_row tbl' key = Some (apply_mutations srv ?r ?l)"
      by (simp add: read_row_def)
    with g Some show ?thesis by (simp add: get_def)
  qed
qed

end
